theory Spec2Isabelle
  imports Main "HOL-Library.Word"
begin

unbundle bit_operations_syntax

section \<open>Byte buffers\<close>

text \<open>
  An \<open>unsigned char\<close> is an 8-bit word, a buffer is the list of its bytes.  Scalars are
  little-endian: \<open>le_val\<close> reads a buffer as a natural number, \<open>le_bytes n\<close> writes
  the \<open>n\<close> low bytes of a number.
\<close>

type_synonym byte = "8 word"
type_synonym bytes = "byte list"

fun le_val :: "bytes \<Rightarrow> nat" where
  "le_val [] = 0"
| "le_val (b # bs) = unat b + 256 * le_val bs"

fun le_bytes :: "nat \<Rightarrow> nat \<Rightarrow> bytes" where
  "le_bytes 0 v = []"
| "le_bytes (Suc n) v = word_of_nat (v mod 256) # le_bytes n (v div 256)"

text \<open>
  \<open>memset(dst, c, n)\<close> and \<open>memcpy(dst + off, src, n)\<close> on a buffer held as a list: the
  bytes outside the written window stay as they were.
\<close>

definition memset :: "bytes \<Rightarrow> byte \<Rightarrow> nat \<Rightarrow> bytes" where
  "memset dst c n = replicate n c @ drop n dst"

definition memcpy :: "bytes \<Rightarrow> nat \<Rightarrow> bytes \<Rightarrow> nat \<Rightarrow> bytes" where
  "memcpy dst off src n = take off dst @ take n src @ drop (off + n) dst"

text \<open>The sizes fixed by \<open>crypto_core_ed25519.h\<close> and \<open>crypto_hash_sha512.h\<close>.\<close>

definition crypto_core_ed25519_BYTES :: nat where
  "crypto_core_ed25519_BYTES = 32"

definition crypto_core_ed25519_SCALARBYTES :: nat where
  "crypto_core_ed25519_SCALARBYTES = 32"

definition crypto_core_ed25519_NONREDUCEDSCALARBYTES :: nat where
  "crypto_core_ed25519_NONREDUCEDSCALARBYTES = 64"

definition HASH_BYTES :: nat where
  "HASH_BYTES = 64"

definition HASH_L :: nat where
  "HASH_L = 48"

section \<open>The group order\<close>

text \<open>The table \<open>L\<close> of the source, byte for byte.\<close>

definition L :: bytes where
  "L = [0xed, 0xd3, 0xf5, 0x5c, 0x1a, 0x63, 0x12, 0x58, 0xd6, 0x9c, 0xf7,
        0xa2, 0xde, 0xf9, 0xde, 0x14, 0x00, 0x00, 0x00, 0x00, 0x00, 0x00,
        0x00, 0x00, 0x00, 0x00, 0x00, 0x00, 0x00, 0x00, 0x00, 0x10]"

text \<open>The number the comment above the table gives.\<close>

definition group_order :: nat where
  "group_order = 2 ^ 252 + 27742317777372353535851937790883648493"

section \<open>Helpers of \<open>sodium/utils.c\<close> and of the scalar primitive\<close>

text \<open>
  Modelled from the spec: \<open>sodium_add\<close> (sodium/utils.c) is not among the sources.  The
  spec calls it an integer addition of little-endian buffers; it is given \<open>len\<close> bytes
  to read and write, so it walks the first \<open>len\<close> bytes of both buffers with a running
  carry and the carry out of byte \<open>len - 1\<close> has nowhere to go.  The bytes of \<open>a\<close>
  from \<open>len\<close> on are not touched.
\<close>

fun add_carry :: "nat \<Rightarrow> bytes \<Rightarrow> bytes \<Rightarrow> bytes" where
  "add_carry c (a # as) (b # bs) =
     (let c' = c + unat a + unat b in word_of_nat c' # add_carry (c' div 256) as bs)"
| "add_carry c _ _ = []"

text \<open>
  Modelled from the spec: \<open>sodium_add(a, b, len)\<close> is the adder above run over the first
  \<open>len\<close> bytes of \<open>a\<close> and \<open>b\<close>, starting without carry; the result replaces
  the first \<open>len\<close> bytes of \<open>a\<close>.
\<close>

definition sodium_add :: "bytes \<Rightarrow> bytes \<Rightarrow> nat \<Rightarrow> bytes" where
  "sodium_add a b len = add_carry 0 (take len a) (take len b) @ drop len a"

text \<open>
  Modelled from the spec: \<open>sodium_sub\<close> (sodium/utils.c) is not among the sources.  The
  spec calls it a subtraction of little-endian buffers of \<open>len\<close> bytes; it walks the
  bytes with a running borrow held in a 16-bit unsigned, whose bit 8 is the borrow
  for the next byte.
\<close>

fun sub_borrow :: "nat \<Rightarrow> bytes \<Rightarrow> bytes \<Rightarrow> bytes" where
  "sub_borrow c (a # as) (b # bs) =
     (let d = (2 ^ 16 + unat a - (unat b + c)) mod 2 ^ 16
      in word_of_nat d # sub_borrow ((d div 256) mod 2) as bs)"
| "sub_borrow c _ _ = []"

text \<open>
  Modelled from the spec: \<open>sodium_sub(a, b, len)\<close> is the subtractor above run over the
  first \<open>len\<close> bytes of \<open>a\<close> and \<open>b\<close>, starting without borrow; the result
  replaces the first \<open>len\<close> bytes of \<open>a\<close>.
\<close>

definition sodium_sub :: "bytes \<Rightarrow> bytes \<Rightarrow> nat \<Rightarrow> bytes" where
  "sodium_sub a b len = sub_borrow 0 (take len a) (take len b) @ drop len a"

text \<open>
  Modelled from the spec: \<open>sodium_is_zero\<close> (sodium/utils.c) is not among the sources;
  it answers 1 when the first \<open>n\<close> bytes are all zero and 0 otherwise.
\<close>

definition sodium_is_zero :: "bytes \<Rightarrow> nat \<Rightarrow> int" where
  "sodium_is_zero s n = (if list_all (\<lambda>b. b = 0) (take n s) then 1 else 0)"

text \<open>
  Modelled from the spec: \<open>sc25519_reduce\<close> (private/ed25519_ref10.h) is not among the
  sources.  The spec: it reduces an arbitrary 64-byte unsigned integer mod L.  It works
  in place: the first 32 bytes of the buffer receive the canonical residue.
\<close>

definition sc25519_reduce :: "bytes \<Rightarrow> bytes" where
  "sc25519_reduce s = le_bytes 32 (le_val (take 64 s) mod group_order) @ drop 32 s"

text \<open>
  Modelled from the spec: \<open>sc25519_is_canonical\<close> (private/ed25519_ref10.h) is not among
  the sources.  The spec: it tests scalar canonicity, that is, whether the 32-byte
  little-endian value is below L.
\<close>

definition sc25519_is_canonical :: "bytes \<Rightarrow> int" where
  "sc25519_is_canonical s = (if le_val (take 32 s) < group_order then 1 else 0)"

section \<open>The scalar ring\<close>

definition crypto_core_ed25519_scalar_reduce :: "bytes \<Rightarrow> bytes" where
  "crypto_core_ed25519_scalar_reduce s =
     (let t = take crypto_core_ed25519_NONREDUCEDSCALARBYTES s;
          t = sc25519_reduce t
      in take crypto_core_ed25519_SCALARBYTES t)"

definition crypto_core_ed25519_scalar_negate :: "bytes \<Rightarrow> bytes" where
  "crypto_core_ed25519_scalar_negate s =
     (let t' = replicate crypto_core_ed25519_NONREDUCEDSCALARBYTES 0;
          s' = replicate crypto_core_ed25519_NONREDUCEDSCALARBYTES 0;
          t' = memcpy t' crypto_core_ed25519_SCALARBYTES L crypto_core_ed25519_SCALARBYTES;
          s' = memcpy s' 0 s crypto_core_ed25519_SCALARBYTES;
          t' = sodium_sub t' s' (length t');
          t' = sc25519_reduce t'
      in take crypto_core_ed25519_SCALARBYTES t')"

definition crypto_core_ed25519_scalar_complement :: "bytes \<Rightarrow> bytes" where
  "crypto_core_ed25519_scalar_complement s =
     (let t' = replicate crypto_core_ed25519_NONREDUCEDSCALARBYTES 0;
          s' = replicate crypto_core_ed25519_NONREDUCEDSCALARBYTES 0;
          t' = t'[0 := t' ! 0 + 1];
          t' = memcpy t' crypto_core_ed25519_SCALARBYTES L crypto_core_ed25519_SCALARBYTES;
          s' = memcpy s' 0 s crypto_core_ed25519_SCALARBYTES;
          t' = sodium_sub t' s' (length t');
          t' = sc25519_reduce t'
      in take crypto_core_ed25519_SCALARBYTES t')"

definition crypto_core_ed25519_scalar_add :: "bytes \<Rightarrow> bytes \<Rightarrow> bytes" where
  "crypto_core_ed25519_scalar_add x y =
     (let x' = replicate crypto_core_ed25519_NONREDUCEDSCALARBYTES 0;
          y' = replicate crypto_core_ed25519_NONREDUCEDSCALARBYTES 0;
          x' = memcpy x' 0 x crypto_core_ed25519_SCALARBYTES;
          y' = memcpy y' 0 y crypto_core_ed25519_SCALARBYTES;
          x' = sodium_add x' y' crypto_core_ed25519_SCALARBYTES
      in crypto_core_ed25519_scalar_reduce x')"

definition crypto_core_ed25519_scalar_sub :: "bytes \<Rightarrow> bytes \<Rightarrow> bytes" where
  "crypto_core_ed25519_scalar_sub x y =
     (let yn = crypto_core_ed25519_scalar_negate y
      in crypto_core_ed25519_scalar_add x yn)"

text \<open>
  \<open>sc25519_mul\<close> (private/ed25519_ref10.h) is not among the sources; the wrapper takes
  it as a parameter.
\<close>

definition crypto_core_ed25519_scalar_mul ::
  "(bytes \<Rightarrow> bytes \<Rightarrow> bytes) \<Rightarrow> bytes \<Rightarrow> bytes \<Rightarrow> bytes" where
  "crypto_core_ed25519_scalar_mul sc25519_mul x y = sc25519_mul x y"

text \<open>
  The inversion reads \<open>s\<close> again after \<open>recip\<close> has been written, and nothing keeps
  a caller from passing the same buffer for both.  So the two pointers are addresses
  into a byte-addressed memory: \<open>load\<close> reads \<open>n\<close> bytes from an address,
  \<open>store\<close> writes a list of bytes at an address.
\<close>

type_synonym memory = "nat \<Rightarrow> byte"

definition load :: "memory \<Rightarrow> nat \<Rightarrow> nat \<Rightarrow> bytes" where
  "load mem a n = map mem [a ..< a + n]"

definition store :: "memory \<Rightarrow> nat \<Rightarrow> bytes \<Rightarrow> memory" where
  "store mem a bs = (\<lambda>i. if a \<le> i \<and> i < a + length bs then bs ! (i - a) else mem i)"

definition zero_memory :: memory where
  "zero_memory = (\<lambda>i. 0)"

text \<open>
  \<open>sc25519_invert(recip, s)\<close> (private/ed25519_ref10.h) is not among the sources.  It
  reads the 32 bytes at \<open>s\<close> and afterwards writes 32 bytes at \<open>recip\<close>; the wrapper
  takes the function from the bytes read to the bytes written as the parameter
  \<open>invert\<close>.  The status is computed from the bytes found at \<open>s\<close> after that write.
  The result is the status together with the memory as the call leaves it.
\<close>

definition crypto_core_ed25519_scalar_invert ::
  "(bytes \<Rightarrow> bytes) \<Rightarrow> memory \<Rightarrow> nat \<Rightarrow> nat \<Rightarrow> int \<times> memory" where
  "crypto_core_ed25519_scalar_invert invert mem recip s =
     (let mem = store mem recip
                  (take crypto_core_ed25519_SCALARBYTES
                     (invert (load mem s crypto_core_ed25519_SCALARBYTES)))
      in (- sodium_is_zero (load mem s crypto_core_ed25519_SCALARBYTES)
              crypto_core_ed25519_SCALARBYTES, mem))"

text \<open>
  Modelled from the spec: \<open>sc25519_invert\<close> (private/ed25519_ref10.h) is not among the
  sources.  The spec: the modular inverse mod L, with no meaningful answer at 0.  Modulo
  the prime L the inverse of a residue is its power \<open>L - 2\<close>, which is 0 for the
  residue 0.  This is the function handed to the wrapper where a concrete one is needed.
\<close>

definition sc25519_invert :: "bytes \<Rightarrow> bytes" where
  "sc25519_invert s =
     le_bytes 32 ((le_val (take 32 s) mod group_order) ^ (group_order - 2) mod group_order)"

text \<open>
  The randomness source is the sequence of its answers: \<open>randombytes_buf k\<close> is what
  the \<open>k\<close>-th call of \<open>randombytes_buf(r, 32)\<close> stores in \<open>r\<close>.  The do-while loop
  may run forever, so the result is an option: \<open>None\<close> is the loop that never leaves.
\<close>

partial_function (option) crypto_core_ed25519_scalar_random ::
  "(nat \<Rightarrow> bytes) \<Rightarrow> nat \<Rightarrow> bytes option" where
  "crypto_core_ed25519_scalar_random randombytes_buf k =
     (let r = randombytes_buf k;
          r = r[crypto_core_ed25519_SCALARBYTES - 1 :=
                 r ! (crypto_core_ed25519_SCALARBYTES - 1) AND 0x1f]
      in if sc25519_is_canonical r = 0 \<or> sodium_is_zero r crypto_core_ed25519_SCALARBYTES \<noteq> 0
         then crypto_core_ed25519_scalar_random randombytes_buf (k + 1)
         else Some r)"

section \<open>The group primitive\<close>

text \<open>
  The functions of private/ed25519_ref10.h on points are not among the sources.  They
  are the fields of a record, one per function, over the types of the three internal
  representations.  A function that reports a status and fills a struct returns the
  pair of both.
\<close>

record ('p3, 'p1p1, 'cached) ge25519 =
  ge25519_is_canonical :: "bytes \<Rightarrow> int"
  ge25519_has_small_order :: "bytes \<Rightarrow> int"
  ge25519_frombytes :: "bytes \<Rightarrow> int \<times> 'p3"
  ge25519_is_on_curve :: "'p3 \<Rightarrow> int"
  ge25519_is_on_main_subgroup :: "'p3 \<Rightarrow> int"
  ge25519_p3_to_cached :: "'p3 \<Rightarrow> 'cached"
  ge25519_add :: "'p3 \<Rightarrow> 'cached \<Rightarrow> 'p1p1"
  ge25519_sub :: "'p3 \<Rightarrow> 'cached \<Rightarrow> 'p1p1"
  ge25519_p1p1_to_p3 :: "'p1p1 \<Rightarrow> 'p3"
  ge25519_p3_tobytes :: "'p3 \<Rightarrow> bytes"
  ge25519_from_uniform :: "bytes \<Rightarrow> bytes"
  ge25519_from_hash :: "bytes \<Rightarrow> bytes"

section \<open>Point validation and the group operations\<close>

text \<open>
  The five tests of \<open>crypto_core_ed25519_is_valid_point\<close> are joined by \<open>||\<close>, which
  stops at the first operand that is true.  The model returns the status together with
  the list of the primitives it has called, in call order.
\<close>

datatype check = Is_canonical | Has_small_order | Frombytes | Is_on_curve | Is_on_main_subgroup

definition crypto_core_ed25519_is_valid_point ::
  "('p3, 'p1p1, 'cached) ge25519 \<Rightarrow> bytes \<Rightarrow> int \<times> check list" where
  "crypto_core_ed25519_is_valid_point G p =
     (if ge25519_is_canonical G p = 0 then (0, [Is_canonical])
      else if ge25519_has_small_order G p \<noteq> 0 then (0, [Is_canonical, Has_small_order])
      else let (rc, p_p3) = ge25519_frombytes G p in
        if rc \<noteq> 0 then (0, [Is_canonical, Has_small_order, Frombytes])
        else if ge25519_is_on_curve G p_p3 = 0
          then (0, [Is_canonical, Has_small_order, Frombytes, Is_on_curve])
        else if ge25519_is_on_main_subgroup G p_p3 = 0
          then (0, [Is_canonical, Has_small_order, Frombytes, Is_on_curve, Is_on_main_subgroup])
        else (1, [Is_canonical, Has_small_order, Frombytes, Is_on_curve, Is_on_main_subgroup]))"

text \<open>
  \<open>crypto_core_ed25519_add\<close> and \<open>crypto_core_ed25519_sub\<close> take the output buffer
  \<open>r\<close> as the caller holds it and return the status with the buffer as they leave it.
\<close>

definition crypto_core_ed25519_add ::
  "('p3, 'p1p1, 'cached) ge25519 \<Rightarrow> bytes \<Rightarrow> bytes \<Rightarrow> bytes \<Rightarrow> int \<times> bytes" where
  "crypto_core_ed25519_add G r p q =
     (let (rc_p, p_p3) = ge25519_frombytes G p in
      if rc_p \<noteq> 0 \<or> ge25519_is_on_curve G p_p3 = 0 then (- 1, r)
      else let (rc_q, q_p3) = ge25519_frombytes G q in
        if rc_q \<noteq> 0 \<or> ge25519_is_on_curve G q_p3 = 0 then (- 1, r)
        else let q_cached = ge25519_p3_to_cached G q_p3;
                 r_p1p1 = ge25519_add G p_p3 q_cached;
                 r_p3 = ge25519_p1p1_to_p3 G r_p1p1;
                 r = ge25519_p3_tobytes G r_p3
             in (0, r))"

definition crypto_core_ed25519_sub ::
  "('p3, 'p1p1, 'cached) ge25519 \<Rightarrow> bytes \<Rightarrow> bytes \<Rightarrow> bytes \<Rightarrow> int \<times> bytes" where
  "crypto_core_ed25519_sub G r p q =
     (let (rc_p, p_p3) = ge25519_frombytes G p in
      if rc_p \<noteq> 0 \<or> ge25519_is_on_curve G p_p3 = 0 then (- 1, r)
      else let (rc_q, q_p3) = ge25519_frombytes G q in
        if rc_q \<noteq> 0 \<or> ge25519_is_on_curve G q_p3 = 0 then (- 1, r)
        else let q_cached = ge25519_p3_to_cached G q_p3;
                 r_p1p1 = ge25519_sub G p_p3 q_cached;
                 r_p3 = ge25519_p1p1_to_p3 G r_p1p1;
                 r = ge25519_p3_tobytes G r_p3
             in (0, r))"

definition crypto_core_ed25519_from_uniform ::
  "('p3, 'p1p1, 'cached) ge25519 \<Rightarrow> bytes \<Rightarrow> int \<times> bytes" where
  "crypto_core_ed25519_from_uniform G r = (let p = ge25519_from_uniform G r in (0, p))"

definition crypto_core_ed25519_from_hash ::
  "('p3, 'p1p1, 'cached) ge25519 \<Rightarrow> bytes \<Rightarrow> int \<times> bytes" where
  "crypto_core_ed25519_from_hash G h = (let p = ge25519_from_hash G h in (0, p))"

section \<open>Hashing a string to points\<close>

text \<open>
  The hash is a collaborator: \<open>H\<close> is SHA-512 as a function from the message to the
  64-byte digest.  A \<open>crypto_hash_sha512_state\<close> is the bytes absorbed since
  \<open>init\<close>; \<open>final\<close> applies \<open>H\<close> to them.  Every function below that calls
  \<open>final\<close> also returns the messages it has hashed, in call order.
\<close>

definition crypto_hash_sha512_init :: bytes where
  "crypto_hash_sha512_init = []"

definition crypto_hash_sha512_update :: "bytes \<Rightarrow> bytes \<Rightarrow> bytes" where
  "crypto_hash_sha512_update st m = st @ m"

definition crypto_hash_sha512_final :: "(bytes \<Rightarrow> bytes) \<Rightarrow> bytes \<Rightarrow> bytes" where
  "crypto_hash_sha512_final H st = H st"

text \<open>
  The inner loop \<open>u[i + j] ^= u[i + j - HASH_BYTES]\<close> for \<open>j < HASH_BYTES\<close>: the block
  at \<open>i\<close> is xored with the block before it.  The two blocks do not overlap.
\<close>

definition xor_previous :: "bytes \<Rightarrow> nat \<Rightarrow> bytes" where
  "xor_previous u i =
     memcpy u i (map2 (XOR) (take HASH_BYTES (drop i u))
                            (take HASH_BYTES (drop (i - HASH_BYTES) u))) HASH_BYTES"

text \<open>
  The first loop of \<open>_string_to_points\<close>, over \<open>i = 0, 64, ...\<close> below
  \<open>n * HASH_BYTES\<close>.  The state is the buffer \<open>u\<close>, the counter block \<open>t\<close> and the
  list of hashed messages.  A C string is the list of its bytes before the terminator.
\<close>

function expand_blocks ::
  "(bytes \<Rightarrow> bytes) \<Rightarrow> nat \<Rightarrow> bytes \<Rightarrow> bytes \<Rightarrow> bytes \<Rightarrow> nat
   \<Rightarrow> bytes \<times> bytes \<times> bytes list \<Rightarrow> bytes \<times> bytes \<times> bytes list" where
  "expand_blocks H n u0 suite ctx i (u, t, hashed) =
     (if i < n * HASH_BYTES then
        let u = memcpy u i u0 HASH_BYTES;
            u = (if i > 0 then xor_previous u i else u);
            st = crypto_hash_sha512_init;
            st = crypto_hash_sha512_update st (take HASH_BYTES (drop i u));
            t = t[2 := t ! 2 + 1];
            st = crypto_hash_sha512_update st (take 2 (drop 2 t));
            st = crypto_hash_sha512_update st suite;
            st = crypto_hash_sha512_update st ctx;
            u = memcpy u i (crypto_hash_sha512_final H st) HASH_BYTES
        in expand_blocks H n u0 suite ctx (i + HASH_BYTES) (u, t, hashed @ [st])
      else (u, t, hashed))"
  by pat_completeness auto
termination
  by (relation "measure (\<lambda>(H, n, u0, suite, ctx, i, s). n * HASH_BYTES - i)")
     (auto simp: HASH_BYTES_def)

declare expand_blocks.simps [simp del]

text \<open>
  The second loop, over \<open>i < n\<close>: 48 bytes of \<open>u\<close> from offset \<open>i * HASH_L\<close> are
  copied behind 16 zero bytes and the 64 bytes go to \<open>ge25519_from_hash\<close>, which
  writes the point at \<open>px + i * crypto_core_ed25519_BYTES\<close>.
\<close>

function map_seeds ::
  "(bytes \<Rightarrow> bytes) \<Rightarrow> nat \<Rightarrow> bytes \<Rightarrow> nat \<Rightarrow> bytes \<times> bytes \<Rightarrow> bytes \<times> bytes" where
  "map_seeds from_hash n u i (u0, px) =
     (if i < n then
        let u0 = memset u0 0 (HASH_BYTES - HASH_L);
            u0 = memcpy u0 (HASH_BYTES - HASH_L) (drop (i * HASH_L) u) HASH_L;
            px = memcpy px (i * crypto_core_ed25519_BYTES) (from_hash u0)
                   crypto_core_ed25519_BYTES
        in map_seeds from_hash n u (i + 1) (u0, px)
      else (u0, px))"
  by pat_completeness auto
termination
  by (relation "measure (\<lambda>(from_hash, n, u, i, s). n - i)") auto

declare map_seeds.simps [simp del]

text \<open>
  \<open>_string_to_points\<close>.  \<open>suite\<close> and \<open>msg\<close> are the lists of the \<open>suite_len\<close> and
  \<open>msg_len\<close> bytes behind the pointers, so that hashing \<open>msg_len\<close> bytes of \<open>msg\<close>
  is hashing the list; \<open>ctx\<close> is \<open>None\<close> for the null pointer, and \<open>ctx_bytes\<close> is
  what a hash update reads from it over \<open>ctx_len\<close> bytes.  The
  buffer \<open>u\<close> is not initialised in the source; every byte read from it has been
  written before, and the model starts it at zero.  The result is the status, the
  output buffer \<open>px\<close> and the list of hashed messages.
\<close>

definition ctx_bytes :: "bytes option \<Rightarrow> bytes" where
  "ctx_bytes ctx = (case ctx of None \<Rightarrow> [] | Some c \<Rightarrow> c)"

definition string_to_points ::
  "(bytes \<Rightarrow> bytes) \<Rightarrow> (bytes \<Rightarrow> bytes) \<Rightarrow> bytes \<Rightarrow> nat \<Rightarrow> bytes \<Rightarrow> bytes option \<Rightarrow> bytes
   \<Rightarrow> int \<times> bytes \<times> bytes list" where
  "string_to_points H from_hash px n suite ctx msg =
     (let suite_len = length suite;
          empty_block = replicate 128 (0::byte);
          u = replicate (2 * HASH_BYTES) (0::byte);
          t = [0, word_of_nat (n * HASH_L), 0, 0 :: byte];
          ctx_len = (case ctx of None \<Rightarrow> 0 | Some c \<Rightarrow> length c)
      in if n > 2 \<or> suite_len > 0xff \<or> ctx_len > 0xff - suite_len then (- 1, px, [])
         else
           let st = crypto_hash_sha512_init;
               st = crypto_hash_sha512_update st empty_block;
               st = crypto_hash_sha512_update st msg;
               t = t[3 := word_of_nat (unat (word_of_nat suite_len :: byte) + ctx_len)];
               st = crypto_hash_sha512_update st (take 4 t);
               st = crypto_hash_sha512_update st suite;
               st = crypto_hash_sha512_update st (ctx_bytes ctx);
               u0 = take HASH_BYTES (crypto_hash_sha512_final H st);
               (u, t, hashed) = expand_blocks H n u0 suite (ctx_bytes ctx) 0 (u, t, [st]);
               (u0, px) = map_seeds from_hash n u 0 (u0, px)
           in (0, px, hashed))"

definition suite_NU :: bytes where
  "suite_NU = map (\<lambda>c. word_of_nat (of_char c)) ''edwards25519_XMD:SHA-512_ELL2_NU_''"

definition suite_RO :: bytes where
  "suite_RO = map (\<lambda>c. word_of_nat (of_char c)) ''edwards25519_XMD:SHA-512_ELL2_RO_''"

definition crypto_core_ed25519_from_string ::
  "(bytes \<Rightarrow> bytes) \<Rightarrow> ('p3, 'p1p1, 'cached) ge25519 \<Rightarrow> bytes \<Rightarrow> bytes option \<Rightarrow> bytes
   \<Rightarrow> int \<times> bytes \<times> bytes list" where
  "crypto_core_ed25519_from_string H G p ctx msg =
     string_to_points H (ge25519_from_hash G) p 1 suite_NU ctx msg"

definition crypto_core_ed25519_from_string_ro ::
  "(bytes \<Rightarrow> bytes) \<Rightarrow> ('p3, 'p1p1, 'cached) ge25519 \<Rightarrow> bytes \<Rightarrow> bytes option \<Rightarrow> bytes
   \<Rightarrow> int \<times> bytes \<times> bytes list" where
  "crypto_core_ed25519_from_string_ro H G p ctx msg =
     (let px = replicate (2 * crypto_core_ed25519_BYTES) (0::byte);
          (rc, px, hashed) = string_to_points H (ge25519_from_hash G) px 2 suite_RO ctx msg
      in if rc \<noteq> 0 then (- 1, p, hashed)
         else let (rc, p) = crypto_core_ed25519_add G p
                              (take crypto_core_ed25519_BYTES px)
                              (take crypto_core_ed25519_BYTES
                                 (drop crypto_core_ed25519_BYTES px))
              in (rc, p, hashed))"

section \<open>The hashed messages, written out\<close>

text \<open>
  The length byte \<open>t[3]\<close>, the message of the first digest and the message of a
  block digest, as the source assembles them: the length byte comes before the suite
  and the context.
\<close>

definition tag_byte :: "bytes \<Rightarrow> bytes \<Rightarrow> byte" where
  "tag_byte suite ctx = word_of_nat (length suite + length ctx)"

definition u0_message :: "nat \<Rightarrow> bytes \<Rightarrow> bytes \<Rightarrow> bytes \<Rightarrow> bytes" where
  "u0_message n suite ctx msg =
     replicate 128 0 @ msg @ [0, word_of_nat (n * 48), 0, tag_byte suite ctx] @ suite @ ctx"

definition block_message :: "bytes \<Rightarrow> nat \<Rightarrow> bytes \<Rightarrow> bytes \<Rightarrow> bytes" where
  "block_message x k suite ctx = x @ [word_of_nat k, tag_byte suite ctx] @ suite @ ctx"

text \<open>
  The same two messages in the words of the specification, with the length byte last,
  and the seed of a block as the specification has it, the last 48 bytes of the block.
\<close>

definition spec_u0_message :: "nat \<Rightarrow> bytes \<Rightarrow> bytes \<Rightarrow> bytes \<Rightarrow> bytes" where
  "spec_u0_message n suite ctx msg =
     replicate 128 0 @ msg @ [0, word_of_nat (n * 48)] @ [0] @ suite @ ctx
       @ [tag_byte suite ctx]"

definition spec_block_message :: "bytes \<Rightarrow> nat \<Rightarrow> bytes \<Rightarrow> bytes \<Rightarrow> bytes" where
  "spec_block_message x k suite ctx = x @ [word_of_nat k] @ suite @ ctx @ [tag_byte suite ctx]"

definition spec_seed :: "bytes \<Rightarrow> bytes" where
  "spec_seed block = drop (HASH_BYTES - HASH_L) block"

section \<open>Stand-ins for the collaborators\<close>

text \<open>
  To run the model on concrete inputs the parameters need values.  \<open>toy_sha512\<close>
  answers the 64 consecutive byte values that start at the length of the message;
  \<open>toy_ge25519\<close> takes the value of the encoding as the element, refuses to decode
  values that are 3 mod 4, puts values that are 2 mod 4 off the curve, counts values
  below 8 as small-order and multiples of 8 as the main subgroup, and adds the values.
  Its two maps answer a zero byte followed by 31 bytes of the input: for \<open>from_hash\<close>
  the 31 bytes behind the 16 bytes of padding.
\<close>

definition toy_sha512 :: "bytes \<Rightarrow> bytes" where
  "toy_sha512 m = map word_of_nat [length m ..< length m + 64]"

definition toy_ge25519 :: "(nat, nat, nat) ge25519" where
  "toy_ge25519 =
     \<lparr> ge25519_is_canonical = (\<lambda>p. if le_val p < 2 ^ 255 - 19 then 1 else 0),
       ge25519_has_small_order = (\<lambda>p. if le_val p < 8 then 1 else 0),
       ge25519_frombytes = (\<lambda>p. (if le_val p mod 4 = 3 then - 1 else 0, le_val p)),
       ge25519_is_on_curve = (\<lambda>x. if x mod 4 = 2 then 0 else 1),
       ge25519_is_on_main_subgroup = (\<lambda>x. if x mod 8 = 0 then 1 else 0),
       ge25519_p3_to_cached = (\<lambda>x. x),
       ge25519_add = (\<lambda>x y. x + y),
       ge25519_sub = (\<lambda>x y. x - y),
       ge25519_p1p1_to_p3 = (\<lambda>x. x),
       ge25519_p3_tobytes = (\<lambda>x. le_bytes 32 x),
       ge25519_from_uniform = (\<lambda>r. 0 # take 31 (r @ replicate 31 0)),
       ge25519_from_hash = (\<lambda>h. 0 # take 31 (drop 16 h @ replicate 31 0)) \<rparr>"

section \<open>Little-endian values\<close>

lemma le_val_append: "le_val (xs @ ys) = le_val xs + 256 ^ length xs * le_val ys"
  by (induction xs) (simp_all add: algebra_simps)

lemma le_val_replicate_zero: "le_val (replicate n 0) = 0"
  by (induction n) simp_all

lemma le_val_less: "le_val xs < 256 ^ length xs"
proof (induction xs)
  case Nil
  show ?case by simp
next
  case (Cons b bs)
  have "unat b < 256" using unsigned_less [of b] by simp
  with Cons show ?case by simp
qed

lemma length_le_bytes: "length (le_bytes n v) = n"
  by (induction n arbitrary: v) simp_all

lemma le_val_le_bytes: "le_val (le_bytes n v) = v mod 256 ^ n"
proof (induction n arbitrary: v)
  case 0
  show ?case by simp
next
  case (Suc n)
  have "unat (word_of_nat (v mod 256) :: byte) = v mod 256"
    by (simp add: unat_of_nat)
  with Suc show ?case
    by (simp add: mod_mult2_eq)
qed

lemma le_bytes_zero: "le_bytes n 0 = replicate n 0"
  by (induction n) simp_all

lemma le_val_L: "le_val L = group_order"
  by (simp add: L_def group_order_def)

section \<open>The byte-wise adder and subtractor\<close>

lemma borrow_word:
  fixes x y :: nat
  assumes "x < 256" "y \<le> 256"
  defines "d \<equiv> (2 ^ 16 + x - y) mod 2 ^ 16"
  shows "d mod 256 + y = x + 256 * ((d div 256) mod 2)"
proof (cases "y \<le> x")
  case True
  then have "65536 + x - y = (x - y) + 65536" by simp
  then have "d = (x - y) mod 65536" by (simp add: d_def del: add_diff_assoc2 add_diff_assoc)
  then have "d = x - y" using assms(1) by simp
  then show ?thesis using True assms(1) by simp
next
  case False
  define r where "r = 256 + x - y"
  have r: "r < 256" "r + y = 256 + x" using False assms by (simp_all add: r_def)
  have "65536 + x - y = 65280 + r" using False assms by (simp add: r_def)
  then have d: "d = 65280 + r" using r by (simp add: d_def)
  have "d div 256 = 255" using r(1) by (simp add: d)
  moreover have "(255 * 256 + r) mod 256 = r mod 256" by (rule mod_mult_self3)
  then have "d mod 256 = r" using r(1) by (simp add: d)
  ultimately show ?thesis using r(2) by simp
qed

lemma sub_borrow_val:
  "length as = length bs \<Longrightarrow> c \<le> 1 \<Longrightarrow>
   \<exists>k\<le>1. le_val (sub_borrow c as bs) + le_val bs + c = le_val as + k * 256 ^ length as"
proof (induction as arbitrary: bs c)
  case Nil
  then show ?case by auto
next
  case (Cons a as)
  then obtain b bs' where bs: "bs = b # bs'" and len: "length as = length bs'"
    by (cases bs) auto
  define d where "d = (2 ^ 16 + unat a - (unat b + c)) mod 2 ^ 16"
  define c' where "c' = (d div 256) mod 2"
  have a: "unat a < 256" using unsigned_less [of a] by simp
  have b: "unat b < 256" using unsigned_less [of b] by simp
  have step: "d mod 256 + (unat b + c) = unat a + 256 * c'"
    unfolding d_def c'_def using a b Cons.prems(2) by (intro borrow_word) simp_all
  have c': "c' \<le> 1" by (simp add: c'_def)
  from Cons.IH [OF len c'] obtain k where k: "k \<le> 1"
    and ih: "le_val (sub_borrow c' as bs') + le_val bs' + c' = le_val as + k * 256 ^ length as"
    by blast
  have u: "unat (word_of_nat d :: byte) = d mod 256" by (simp add: unat_of_nat)
  have "sub_borrow c (a # as) bs = word_of_nat d # sub_borrow c' as bs'"
    by (simp add: bs d_def c'_def Let_def)
  then have "le_val (sub_borrow c (a # as) bs) + le_val bs + c
      = (d mod 256 + (unat b + c)) + 256 * (le_val (sub_borrow c' as bs') + le_val bs')"
    by (simp add: bs u)
  also have "\<dots> = unat a + 256 * (le_val (sub_borrow c' as bs') + le_val bs' + c')"
    using step by simp
  also have "\<dots> = le_val (a # as) + k * 256 ^ length (a # as)"
    using ih by simp
  finally show ?case using k by blast
qed

lemma length_sub_borrow: "length as = length bs \<Longrightarrow> length (sub_borrow c as bs) = length as"
  by (induction c as bs rule: sub_borrow.induct) (simp_all add: Let_def)

lemma carry_word:
  fixes s t m :: nat
  shows "s mod 256 + 256 * ((s div 256 + t) mod m) = (s + 256 * t) mod (256 * m)"
proof -
  have "(s + 256 * t) div 256 = s div 256 + t" by simp
  moreover have "(s + 256 * t) mod 256 = s mod 256" by simp
  ultimately show ?thesis
    using mod_mult2_eq [of "s + 256 * t" 256 m] by (simp only: add.commute)
qed

lemma add_carry_val:
  "length as = length bs \<Longrightarrow>
   le_val (add_carry c as bs) = (c + le_val as + le_val bs) mod 256 ^ length as"
proof (induction as arbitrary: bs c)
  case Nil
  then show ?case by simp
next
  case (Cons a as)
  then obtain b bs' where bs: "bs = b # bs'" and len: "length as = length bs'"
    by (cases bs) auto
  define s where "s = c + unat a + unat b"
  define t where "t = le_val as + le_val bs'"
  have u: "unat (word_of_nat s :: byte) = s mod 256" by (simp add: unat_of_nat)
  have "add_carry c (a # as) bs = word_of_nat s # add_carry (s div 256) as bs'"
    by (simp add: bs s_def Let_def)
  then have "le_val (add_carry c (a # as) bs) = s mod 256 + 256 * le_val (add_carry (s div 256) as bs')"
    by (simp add: u)
  also have "\<dots> = s mod 256 + 256 * ((s div 256 + t) mod 256 ^ length as)"
    by (simp add: Cons.IH [OF len] t_def add.assoc)
  also have "\<dots> = (s + 256 * t) mod (256 * 256 ^ length as)"
    by (rule carry_word)
  also have "s + 256 * t = c + le_val (a # as) + le_val bs"
    by (simp add: s_def t_def bs)
  finally show ?case by simp
qed

lemma length_add_carry: "length as = length bs \<Longrightarrow> length (add_carry c as bs) = length as"
  by (induction c as bs rule: add_carry.induct) (simp_all add: Let_def)

section \<open>What the scalar operations compute\<close>

lemma zero_extend:
  "length x = 32 \<Longrightarrow> memcpy (replicate 64 0) 0 x 32 = x @ replicate 32 0"
  by (simp add: memcpy_def)

lemma sodium_sub_val:
  assumes "length a = n" "length b = n" "le_val b \<le> le_val a"
  shows "le_val (sodium_sub a b n) = le_val a - le_val b"
proof -
  have r: "sodium_sub a b n = sub_borrow 0 a b" using assms by (simp add: sodium_sub_def)
  have len: "length (sub_borrow 0 a b) = n" using assms by (simp add: length_sub_borrow)
  from sub_borrow_val [of a b 0] assms obtain k where k: "k \<le> 1"
    and e: "le_val (sub_borrow 0 a b) + le_val b = le_val a + k * 256 ^ n" by auto
  have bound: "le_val (sub_borrow 0 a b) < 256 ^ n" using le_val_less [of "sub_borrow 0 a b"] len by simp
  have "k = 0"
  proof (rule ccontr)
    assume "k \<noteq> 0"
    with k have "k = 1" by simp
    with e have "le_val (sub_borrow 0 a b) + le_val b = le_val a + 256 ^ n" by simp
    with bound assms(3) show False by linarith
  qed
  with e show ?thesis by (simp add: r)
qed

lemma length_sodium_sub:
  "length a = n \<Longrightarrow> length b = n \<Longrightarrow> length (sodium_sub a b n) = n"
  by (simp add: sodium_sub_def length_sub_borrow)

lemma scalar_add_eq:
  assumes "length x = 32" "length y = 32"
  shows "crypto_core_ed25519_scalar_add x y =
         le_bytes 32 (((le_val x + le_val y) mod 2 ^ 256) mod group_order)"
proof -
  have v: "le_val (add_carry 0 x y) = (le_val x + le_val y) mod 2 ^ 256"
    using add_carry_val [of x y 0] assms by simp
  have l: "length (add_carry 0 x y) = 32" using assms by (simp add: length_add_carry)
  have "sodium_add (x @ replicate 32 0) (y @ replicate 32 0) 32 = add_carry 0 x y @ replicate 32 0"
    using assms by (simp add: sodium_add_def)
  then show ?thesis
    using assms l
    by (simp add: crypto_core_ed25519_scalar_add_def crypto_core_ed25519_scalar_reduce_def
        crypto_core_ed25519_NONREDUCEDSCALARBYTES_def crypto_core_ed25519_SCALARBYTES_def
        zero_extend sc25519_reduce_def le_val_append le_val_replicate_zero v length_le_bytes)
qed

lemma length_L: "length L = 32"
  by (simp add: L_def)

lemma group_order_less: "group_order < 2 ^ 256"
  by (simp add: group_order_def)

lemma group_order_pos: "0 < group_order"
  by (simp add: group_order_def)

lemma scalar_negate_eq:
  assumes "length s = 32"
  shows "crypto_core_ed25519_scalar_negate s =
         le_bytes 32 ((2 ^ 256 * group_order - le_val s) mod group_order)"
proof -
  define t where "t = replicate 32 (0::byte) @ L"
  define s' where "s' = s @ replicate 32 (0::byte)"
  have t: "memcpy (replicate 64 0) 32 L 32 = t"
    by (simp add: memcpy_def t_def length_L)
  have lt: "length t = 64" and ls: "length s' = 64"
    using assms by (simp_all add: t_def s'_def length_L)
  have vt: "le_val t = 2 ^ 256 * group_order"
    by (simp add: t_def le_val_append le_val_replicate_zero le_val_L)
  have vs: "le_val s' = le_val s"
    by (simp add: s'_def le_val_append le_val_replicate_zero)
  have "le_val s < 2 ^ 256" using le_val_less [of s] assms by simp
  also have "\<dots> \<le> 2 ^ 256 * group_order" using group_order_pos by simp
  finally have le: "le_val s' \<le> le_val t" by (simp add: vs vt)
  have vsub: "le_val (sodium_sub t s' 64) = 2 ^ 256 * group_order - le_val s"
    using sodium_sub_val [OF lt ls le] by (simp add: vs vt)
  have lsub: "length (sodium_sub t s' 64) = 64"
    using length_sodium_sub [OF lt ls] .
  show ?thesis
    using assms lt lsub
    by (simp add: crypto_core_ed25519_scalar_negate_def
        crypto_core_ed25519_NONREDUCEDSCALARBYTES_def crypto_core_ed25519_SCALARBYTES_def
        zero_extend t s'_def [symmetric] Let_def sc25519_reduce_def vsub length_le_bytes)
qed

lemma scalar_complement_eq:
  assumes "length s = 32"
  shows "crypto_core_ed25519_scalar_complement s =
         le_bytes 32 ((1 + 2 ^ 256 * group_order - le_val s) mod group_order)"
proof -
  define t where "t = (1::byte) # replicate 31 0 @ L"
  define s' where "s' = s @ replicate 32 (0::byte)"
  have r: "(replicate 64 (0::byte))[0 := 1] = 1 # replicate 63 0"
    by (simp add: numeral_eq_Suc)
  have t: "memcpy (1 # replicate 63 0) 32 L 32 = t"
    by (simp add: memcpy_def t_def length_L numeral_eq_Suc)
  have lt: "length t = 64" and ls: "length s' = 64"
    using assms by (simp_all add: t_def s'_def length_L)
  have "le_val (((1::byte) # replicate 31 0) @ L) = 1 + 2 ^ 256 * group_order"
    by (simp only: le_val_append) (simp add: le_val_replicate_zero le_val_L)
  then have vt: "le_val t = 1 + 2 ^ 256 * group_order"
    by (simp add: t_def)
  have vs: "le_val s' = le_val s"
    by (simp add: s'_def le_val_append le_val_replicate_zero)
  have "le_val s < 2 ^ 256" using le_val_less [of s] assms by simp
  also have "\<dots> \<le> 2 ^ 256 * group_order" using group_order_pos by simp
  finally have le: "le_val s' \<le> le_val t" by (simp add: vs vt)
  have vsub: "le_val (sodium_sub t s' 64) = 1 + 2 ^ 256 * group_order - le_val s"
    using sodium_sub_val [OF lt ls le] by (simp add: vs vt)
  have lsub: "length (sodium_sub t s' 64) = 64"
    using length_sodium_sub [OF lt ls] .
  show ?thesis
    using assms lt lsub
    by (simp add: crypto_core_ed25519_scalar_complement_def
        crypto_core_ed25519_NONREDUCEDSCALARBYTES_def crypto_core_ed25519_SCALARBYTES_def
        zero_extend r t s'_def [symmetric] Let_def sc25519_reduce_def vsub length_le_bytes)
qed

section \<open>Claims on the scalar ring\<close>

lemma length_scalar_negate:
  "length s = 32 \<Longrightarrow> length (crypto_core_ed25519_scalar_negate s) = 32"
  by (simp add: scalar_negate_eq length_le_bytes)

lemma length_scalar_complement:
  "length s = 32 \<Longrightarrow> length (crypto_core_ed25519_scalar_complement s) = 32"
  by (simp add: scalar_complement_eq length_le_bytes)

lemma le_val_le_bytes_canonical:
  "le_val (le_bytes 32 (v mod group_order)) = v mod group_order"
proof -
  have "v mod group_order < group_order" using group_order_pos by simp
  then have "v mod group_order < 256 ^ 32" using group_order_less by simp
  then show ?thesis by (simp add: le_val_le_bytes)
qed

lemma le_bytes_one: "le_bytes (Suc n) 1 = 1 # replicate n 0"
  by (simp add: le_bytes_zero)

lemma cancel_mod:
  fixes x m c :: nat
  assumes "x < m" "x \<le> c + k * m"
  shows "(x + (c + k * m - x) mod m) mod m = c mod m"
proof -
  have "(x + (c + k * m - x) mod m) mod m = (x + (c + k * m - x)) mod m"
    by (simp add: mod_add_right_eq)
  also have "x + (c + k * m - x) = c + k * m" using assms(2) by simp
  finally show ?thesis by simp
qed

text \<open>
  C9: for a canonical scalar \<open>x\<close> (32 bytes, value below the group order), adding
  \<open>x\<close> to its negation gives the all-zero scalar and adding \<open>x\<close> to its
  complement gives the encoding of 1.
\<close>

theorem scalar_add_negate_complement:
  assumes "length x = 32" and "le_val x < group_order"
  shows "crypto_core_ed25519_scalar_add x (crypto_core_ed25519_scalar_negate x) = replicate 32 0
       \<and> crypto_core_ed25519_scalar_add x (crypto_core_ed25519_scalar_complement x)
           = 1 # replicate 31 0"
proof -
  define nv where "nv = (2 ^ 256 * group_order - le_val x) mod group_order"
  define cv where "cv = (1 + 2 ^ 256 * group_order - le_val x) mod group_order"
  have small: "\<And>v. v < group_order \<Longrightarrow> (le_val x + v) mod 2 ^ 256 = le_val x + v"
    using assms(2) by (simp add: group_order_def)
  have nlt: "nv < group_order" and clt: "cv < group_order"
    using group_order_pos by (simp_all add: nv_def cv_def)
  have le: "le_val x \<le> 2 ^ 256 * group_order"
    using assms(2) by (simp add: group_order_def)
  have n0: "(le_val x + nv) mod group_order = 0"
    using cancel_mod [of "le_val x" group_order 0 "2 ^ 256"] assms(2) le
    by (simp add: nv_def mult.commute)
  have one: "1 mod group_order = 1"
    by (simp add: group_order_def)
  have "le_val x \<le> 1 + 2 ^ 256 * group_order" using le by simp
  then have c1: "(le_val x + cv) mod group_order = 1"
    using cancel_mod [of "le_val x" group_order 1 "2 ^ 256"] assms(2)
    by (simp only: cv_def mult.commute one)
  have "crypto_core_ed25519_scalar_add x (crypto_core_ed25519_scalar_negate x)
        = le_bytes 32 (((le_val x + nv) mod 2 ^ 256) mod group_order)"
    using assms(1)
    by (simp only: scalar_add_eq length_le_bytes scalar_negate_eq
        le_val_le_bytes_canonical nv_def)
  also have "\<dots> = le_bytes 32 0" by (simp only: small [OF nlt] n0)
  finally have neg: "crypto_core_ed25519_scalar_add x (crypto_core_ed25519_scalar_negate x)
        = replicate 32 0" by (simp only: le_bytes_zero)
  have "crypto_core_ed25519_scalar_add x (crypto_core_ed25519_scalar_complement x)
        = le_bytes 32 (((le_val x + cv) mod 2 ^ 256) mod group_order)"
    using assms(1)
    by (simp only: scalar_add_eq length_le_bytes scalar_complement_eq
        le_val_le_bytes_canonical cv_def)
  also have "\<dots> = le_bytes 32 1" by (simp only: small [OF clt] c1)
  also have "\<dots> = 1 # replicate 31 0"
    using le_bytes_one [of 31] by simp
  finally show ?thesis using neg by simp
qed

theorem scalar_add_negate_complement_witness:
  "crypto_core_ed25519_scalar_add (5 # replicate 31 0)
     (crypto_core_ed25519_scalar_negate (5 # replicate 31 0)) = replicate 32 0
   \<and> crypto_core_ed25519_scalar_add (5 # replicate 31 0)
     (crypto_core_ed25519_scalar_complement (5 # replicate 31 0)) = 1 # replicate 31 0"
  using scalar_add_negate_complement [of "5 # replicate 31 0"]
  by (simp add: le_val_replicate_zero group_order_def)

lemma le_val_replicate_ff: "le_val (replicate n 0xff) + 1 = 256 ^ n"
  by (induction n) simp_all

text \<open>
  C1: the sum of two 32-byte operands is formed over 32 bytes only, so a carry out of
  byte 31 is lost before the reduction.  At \<open>x = 2^256 - 1\<close> and \<open>y = 1\<close>
  the result is the all-zero scalar, while \<open>(x + y) mod L\<close> is not zero.
\<close>

theorem scalar_add_drops_carry:
  "crypto_core_ed25519_scalar_add (replicate 32 0xff) (1 # replicate 31 0) = replicate 32 0
   \<and> (le_val (replicate 32 0xff) + le_val (1 # replicate 31 0)) mod group_order
       = 7237005577332262213973186563042994240413239274941949949428319933631315875101"
proof -
  have b: "le_val (1 # replicate 31 0) = 1"
    by (simp add: le_val_replicate_zero)
  have sum: "le_val (replicate 32 0xff) + le_val (1 # replicate 31 0) = 2 ^ 256"
    using le_val_replicate_ff [of 32] by (simp add: le_val_replicate_zero)
  have "crypto_core_ed25519_scalar_add (replicate 32 0xff) (1 # replicate 31 0)
        = le_bytes 32 (((le_val (replicate 32 0xff) + le_val (1 # replicate 31 0)) mod 2 ^ 256)
            mod group_order)"
    by (rule scalar_add_eq) simp_all
  then have "crypto_core_ed25519_scalar_add (replicate 32 0xff) (1 # replicate 31 0)
        = le_bytes 32 ((2 ^ 256 mod 2 ^ 256) mod group_order)"
    by (simp only: sum)
  then have "crypto_core_ed25519_scalar_add (replicate 32 0xff) (1 # replicate 31 0)
        = replicate 32 0"
    by (simp add: le_bytes_zero)
  moreover have "(2::nat) ^ 256 mod group_order
       = 7237005577332262213973186563042994240413239274941949949428319933631315875101"
    by (simp add: group_order_def)
  ultimately show ?thesis by (simp only: sum)
qed

section \<open>Claims on the inversion\<close>

lemma le_val_eq_0_iff: "le_val xs = 0 \<longleftrightarrow> list_all (\<lambda>b. b = 0) xs"
  by (induction xs) (simp_all add: unsigned_eq_0_iff)

lemma list_all_zero_iff: "list_all (\<lambda>b. b = 0) xs \<longleftrightarrow> xs = replicate (length xs) 0"
  by (induction xs) auto

lemma replicate_32: "replicate 32 x = x # replicate 31 x"
  using replicate_Suc [of 31 x] by simp

lemma sodium_is_zero_eq:
  "length s = n \<Longrightarrow> sodium_is_zero s n = (if le_val s = 0 then 1 else 0)"
  by (simp add: sodium_is_zero_def le_val_eq_0_iff)

lemma scalar_reduce_eq:
  "length w = 64 \<Longrightarrow>
   crypto_core_ed25519_scalar_reduce w = le_bytes 32 (le_val w mod group_order)"
  by (simp add: crypto_core_ed25519_scalar_reduce_def sc25519_reduce_def
      crypto_core_ed25519_NONREDUCEDSCALARBYTES_def crypto_core_ed25519_SCALARBYTES_def
      length_le_bytes)

lemma canonical_bytes:
  "length (le_bytes 32 (v mod group_order)) = 32
   \<and> le_val (le_bytes 32 (v mod group_order)) < group_order"
  using group_order_pos by (simp add: length_le_bytes le_val_le_bytes_canonical)

lemma length_load: "length (load mem a n) = n"
  by (simp add: load_def)

lemma load_store_same: "length bs = n \<Longrightarrow> load (store mem a bs) a n = bs"
  by (auto simp add: load_def store_def list_eq_iff_nth_eq)

lemma load_store_disjoint:
  "a + length bs \<le> b \<or> b + n \<le> a \<Longrightarrow> load (store mem a bs) b n = load mem b n"
  by (auto simp add: load_def store_def)

lemma load_zero_memory: "load zero_memory a n = replicate n 0"
  by (simp add: load_def zero_memory_def map_replicate_const)

lemma length_sc25519_invert: "length (sc25519_invert s) = 32"
  by (simp add: sc25519_invert_def length_le_bytes)

lemma group_order_gt_2: "2 < group_order"
  by (simp add: group_order_def)

lemma sc25519_invert_multiple:
  assumes "length s = 32" and "group_order dvd le_val s"
  shows "sc25519_invert s = replicate 32 0"
proof -
  have z: "le_val s mod group_order = 0" using assms(2) by (simp add: mod_eq_0_iff_dvd)
  have "group_order - 2 \<noteq> 0" using group_order_gt_2 by simp
  then have "(0::nat) ^ (group_order - 2) = 0" by (simp only: power_0_left if_False)
  then have "(le_val s mod group_order) ^ (group_order - 2) mod group_order = 0"
    by (simp only: z mod_0)
  then have "sc25519_invert s = le_bytes 32 0"
    using assms(1) by (simp add: sc25519_invert_def)
  then show ?thesis by (simp only: le_bytes_zero)
qed

lemma sc25519_invert_one: "sc25519_invert (1 # replicate 31 0) = 1 # replicate 31 0"
proof -
  have "le_val ((1::byte) # replicate 31 0) mod group_order = 1"
    by (simp add: le_val_replicate_zero) (simp add: group_order_def)
  then have "sc25519_invert (1 # replicate 31 0) = le_bytes 32 (1 mod group_order)"
    by (simp add: sc25519_invert_def)
  also have "1 mod group_order = 1" by (simp add: group_order_def)
  finally show ?thesis using le_bytes_one [of 31] by simp
qed

lemma scalar_invert_in_place:
  assumes "length (invert (load mem s 32)) = 32"
  shows "crypto_core_ed25519_scalar_invert invert mem s s =
         (- sodium_is_zero (invert (load mem s 32)) 32,
          store mem s (invert (load mem s 32)))"
  using assms
  by (simp add: crypto_core_ed25519_scalar_invert_def crypto_core_ed25519_SCALARBYTES_def
      Let_def load_store_same)

lemma scalar_invert_disjoint:
  assumes "recip + 32 \<le> s \<or> s + 32 \<le> recip"
  shows "crypto_core_ed25519_scalar_invert invert mem recip s =
         (- sodium_is_zero (load mem s 32) 32,
          store mem recip (take 32 (invert (load mem s 32))))"
proof -
  have "recip + length (take 32 (invert (load mem s 32))) \<le> s \<or> s + 32 \<le> recip"
    using assms by auto
  then show ?thesis
    by (simp only: crypto_core_ed25519_scalar_invert_def crypto_core_ed25519_SCALARBYTES_def
        Let_def load_store_disjoint)
qed


text \<open>
  C7, as amended: on a call whose buffer \<open>recip\<close> does not overlap \<open>s\<close>, the
  inversion wrapper reports failure (status -1) when the 32 bytes at \<open>s\<close> are all
  zero and success (status 0) on every other input; in both cases \<open>recip\<close> holds what
  \<open>sc25519_invert\<close> computed and \<open>s\<close> is unchanged.  The other scalar operations
  have no status: on inputs of the right size negate, complement, add, sub and reduce
  always deliver a canonical 32-byte scalar, and mul hands over to \<open>sc25519_mul\<close>.
\<close>

theorem scalar_invert_status:
  assumes "recip + 32 \<le> s \<or> s + 32 \<le> recip"
    and "length (invert (load mem s 32)) = 32"
    and "length x = 32" and "length y = 32" and "length w = 64"
  shows "fst (crypto_core_ed25519_scalar_invert invert mem recip s) =
           (if load mem s 32 = replicate 32 0 then - 1 else 0)
       \<and> load (snd (crypto_core_ed25519_scalar_invert invert mem recip s)) recip 32
           = invert (load mem s 32)
       \<and> load (snd (crypto_core_ed25519_scalar_invert invert mem recip s)) s 32
           = load mem s 32
       \<and> length (crypto_core_ed25519_scalar_negate x) = 32
       \<and> le_val (crypto_core_ed25519_scalar_negate x) < group_order
       \<and> length (crypto_core_ed25519_scalar_complement x) = 32
       \<and> le_val (crypto_core_ed25519_scalar_complement x) < group_order
       \<and> length (crypto_core_ed25519_scalar_add x y) = 32
       \<and> le_val (crypto_core_ed25519_scalar_add x y) < group_order
       \<and> length (crypto_core_ed25519_scalar_sub x y) = 32
       \<and> le_val (crypto_core_ed25519_scalar_sub x y) < group_order
       \<and> length (crypto_core_ed25519_scalar_reduce w) = 32
       \<and> le_val (crypto_core_ed25519_scalar_reduce w) < group_order
       \<and> crypto_core_ed25519_scalar_mul sc25519_mul x y = sc25519_mul x y"
proof -
  let ?in = "load mem s 32"
  have z: "le_val ?in = 0 \<longleftrightarrow> ?in = replicate 32 0"
    using list_all_zero_iff [of ?in] by (simp add: le_val_eq_0_iff length_load)
  have r: "crypto_core_ed25519_scalar_invert invert mem recip s =
           (- sodium_is_zero ?in 32, store mem recip (invert ?in))"
    using scalar_invert_disjoint [OF assms(1), of invert mem] assms(2) by simp
  have i1: "fst (crypto_core_ed25519_scalar_invert invert mem recip s) =
           (if ?in = replicate 32 0 then - 1 else 0)"
    using z by (simp add: r sodium_is_zero_eq length_load)
  have i2: "load (snd (crypto_core_ed25519_scalar_invert invert mem recip s)) recip 32
           = invert ?in"
    using assms(2) by (simp add: r load_store_same)
  have i3: "load (snd (crypto_core_ed25519_scalar_invert invert mem recip s)) s 32 = ?in"
    using assms(1,2) by (simp add: r load_store_disjoint)
  have neg: "length (crypto_core_ed25519_scalar_negate x) = 32
             \<and> le_val (crypto_core_ed25519_scalar_negate x) < group_order"
    using assms(3) by (simp only: scalar_negate_eq canonical_bytes)
  have com: "length (crypto_core_ed25519_scalar_complement x) = 32
             \<and> le_val (crypto_core_ed25519_scalar_complement x) < group_order"
    using assms(3) by (simp only: scalar_complement_eq canonical_bytes)
  have add: "length (crypto_core_ed25519_scalar_add x y) = 32
             \<and> le_val (crypto_core_ed25519_scalar_add x y) < group_order"
    using assms(3,4) by (simp only: scalar_add_eq canonical_bytes)
  have ny: "length (crypto_core_ed25519_scalar_negate y) = 32"
    using assms(4) by (rule length_scalar_negate)
  have sub: "length (crypto_core_ed25519_scalar_sub x y) = 32
             \<and> le_val (crypto_core_ed25519_scalar_sub x y) < group_order"
    unfolding crypto_core_ed25519_scalar_sub_def Let_def
    by (simp only: scalar_add_eq [OF assms(3) ny] canonical_bytes)
  have red: "length (crypto_core_ed25519_scalar_reduce w) = 32
             \<and> le_val (crypto_core_ed25519_scalar_reduce w) < group_order"
    using assms(5) by (simp only: scalar_reduce_eq canonical_bytes)
  have mul: "crypto_core_ed25519_scalar_mul sc25519_mul x y = sc25519_mul x y"
    by (simp add: crypto_core_ed25519_scalar_mul_def)
  from i1 i2 i3 neg com add sub red mul show ?thesis
    by (simp only: simp_thms)
qed

theorem scalar_invert_status_witness:
  "fst (crypto_core_ed25519_scalar_invert sc25519_invert zero_memory 32 0) = - 1
   \<and> fst (crypto_core_ed25519_scalar_invert sc25519_invert
            (store zero_memory 0 (1 # replicate 31 0)) 32 0) = 0
   \<and> load (snd (crypto_core_ed25519_scalar_invert sc25519_invert
            (store zero_memory 0 (1 # replicate 31 0)) 32 0)) 32 32 = 1 # replicate 31 0"
  using scalar_invert_status [of 32 0 sc25519_invert zero_memory "replicate 32 0"
      "replicate 32 0" "replicate 64 0"]
    scalar_invert_status [of 32 0 sc25519_invert "store zero_memory 0 (1 # replicate 31 0)"
      "replicate 32 0" "replicate 32 0" "replicate 64 0"]
  by (simp add: length_sc25519_invert load_zero_memory load_store_same replicate_32
      sc25519_invert_one)

text \<open>
  C7, as stated, fails: called in place (\<open>recip\<close> and \<open>s\<close> the same buffer) on the
  encoding of L, which is not zero, the wrapper finds the zero written by the inversion
  where it looks for the input and reports failure.
\<close>

theorem scalar_invert_in_place_counterexample:
  "load (store zero_memory 0 L) 0 32 = L
   \<and> L \<noteq> replicate 32 0
   \<and> fst (crypto_core_ed25519_scalar_invert sc25519_invert (store zero_memory 0 L) 0 0) = - 1"
proof -
  have l: "load (store zero_memory 0 L) 0 32 = L"
    by (simp add: load_store_same length_L)
  have i: "sc25519_invert L = replicate 32 0"
    by (rule sc25519_invert_multiple) (simp_all add: length_L le_val_L)
  have "crypto_core_ed25519_scalar_invert sc25519_invert (store zero_memory 0 L) 0 0 =
        (- sodium_is_zero (sc25519_invert (load (store zero_memory 0 L) 0 32)) 32,
         store (store zero_memory 0 L) 0 (sc25519_invert (load (store zero_memory 0 L) 0 32)))"
    by (rule scalar_invert_in_place) (rule length_sc25519_invert)
  then have "fst (crypto_core_ed25519_scalar_invert sc25519_invert (store zero_memory 0 L) 0 0)
        = - 1"
    by (simp add: l i sodium_is_zero_eq le_val_replicate_zero)
  moreover have "L \<noteq> replicate 32 0" by (simp add: L_def replicate_32)
  ultimately show ?thesis using l by simp
qed


text \<open>
  C10, as amended: on a call whose buffer \<open>recip\<close> does not overlap \<open>s\<close>, the status
  is decided by the bytes of the input alone: -1 when all 32 are zero, 0 otherwise.  So
  an input that is not all-zero but whose value is a multiple of the group order (such
  as the encoding of L itself) gets status 0, although no output can be its inverse:
  the product of the input with whatever was written to \<open>recip\<close> is 0 mod L, never 1.
\<close>

theorem scalar_invert_tests_bytes:
  assumes "recip + 32 \<le> s \<or> s + 32 \<le> recip"
    and "length (invert (load mem s 32)) = 32"
  shows "fst (crypto_core_ed25519_scalar_invert invert mem recip s) =
           (if load mem s 32 = replicate 32 0 then - 1 else 0)
       \<and> (load mem s 32 \<noteq> replicate 32 0 \<and> group_order dvd le_val (load mem s 32) \<longrightarrow>
            fst (crypto_core_ed25519_scalar_invert invert mem recip s) = 0
          \<and> (le_val (load mem s 32)
               * le_val (load (snd (crypto_core_ed25519_scalar_invert invert mem recip s))
                           recip 32)) mod group_order \<noteq> 1)"
proof -
  let ?in = "load mem s 32"
  have z: "le_val ?in = 0 \<longleftrightarrow> ?in = replicate 32 0"
    using list_all_zero_iff [of ?in] by (simp add: le_val_eq_0_iff length_load)
  have r: "crypto_core_ed25519_scalar_invert invert mem recip s =
           (- sodium_is_zero ?in 32, store mem recip (invert ?in))"
    using scalar_invert_disjoint [OF assms(1), of invert mem] assms(2) by simp
  have i1: "fst (crypto_core_ed25519_scalar_invert invert mem recip s) =
           (if ?in = replicate 32 0 then - 1 else 0)"
    using z by (simp add: r sodium_is_zero_eq length_load)
  have i2: "(le_val ?in * v) mod group_order \<noteq> 1" if "group_order dvd le_val ?in" for v
    using that by (simp add: mod_eq_0_iff_dvd)
  from i1 i2 show ?thesis by simp
qed

theorem scalar_invert_tests_bytes_witness:
  "fst (crypto_core_ed25519_scalar_invert sc25519_invert (store zero_memory 0 L) 32 0) = 0
   \<and> (le_val L
        * le_val (load (snd (crypto_core_ed25519_scalar_invert sc25519_invert
                               (store zero_memory 0 L) 32 0)) 32 32)) mod group_order \<noteq> 1
   \<and> fst (crypto_core_ed25519_scalar_invert sc25519_invert zero_memory 32 0) = - 1"
proof -
  have l: "load (store zero_memory 0 L) 0 32 = L"
    by (simp add: load_store_same length_L)
  have n: "L \<noteq> replicate 32 0" by (simp add: L_def replicate_32)
  show ?thesis
    using scalar_invert_tests_bytes [of 32 0 sc25519_invert "store zero_memory 0 L"]
      scalar_invert_tests_bytes [of 32 0 sc25519_invert zero_memory]
    by (simp add: l n le_val_L length_sc25519_invert load_zero_memory)
qed

lemma le_val_double_order: "le_val (le_bytes 32 (2 * group_order)) = 2 * group_order"
  by (simp add: le_val_le_bytes group_order_def)

text \<open>
  C10, as stated, fails: called in place on the encoding of 2 L, a nonzero multiple of
  the group order, the wrapper reports failure, not success.
\<close>

theorem scalar_invert_multiple_in_place_counterexample:
  "load (store zero_memory 64 (le_bytes 32 (2 * group_order))) 64 32
     = le_bytes 32 (2 * group_order)
   \<and> le_val (le_bytes 32 (2 * group_order)) = 2 * group_order
   \<and> le_bytes 32 (2 * group_order) \<noteq> replicate 32 0
   \<and> fst (crypto_core_ed25519_scalar_invert sc25519_invert
            (store zero_memory 64 (le_bytes 32 (2 * group_order))) 64 64) = - 1"
proof -
  let ?s = "le_bytes 32 (2 * group_order)"
  have l: "load (store zero_memory 64 ?s) 64 32 = ?s"
    by (simp add: load_store_same length_le_bytes)
  have i: "sc25519_invert ?s = replicate 32 0"
    by (rule sc25519_invert_multiple) (simp_all add: length_le_bytes le_val_double_order)
  have "crypto_core_ed25519_scalar_invert sc25519_invert (store zero_memory 64 ?s) 64 64 =
        (- sodium_is_zero (sc25519_invert (load (store zero_memory 64 ?s) 64 32)) 32,
         store (store zero_memory 64 ?s) 64
           (sc25519_invert (load (store zero_memory 64 ?s) 64 32)))"
    by (rule scalar_invert_in_place) (rule length_sc25519_invert)
  then have f: "fst (crypto_core_ed25519_scalar_invert sc25519_invert
                       (store zero_memory 64 ?s) 64 64) = - 1"
    by (simp add: l i sodium_is_zero_eq le_val_replicate_zero)
  have "le_val ?s \<noteq> 0" by (simp only: le_val_double_order) (simp add: group_order_def)
  then have n: "?s \<noteq> replicate 32 0"
    using le_val_replicate_zero [of 32] by auto
  from l f n show ?thesis by (simp only: le_val_double_order simp_thms)
qed

section \<open>Claims on the random scalar\<close>

lemma mask_top_bound:
  assumes "length r = 32"
  shows "le_val (r[31 := r ! 31 AND 0x1f]) < 2 ^ 253"
proof -
  obtain xs b where r: "r = xs @ [b]" and xs: "length xs = 31"
    using assms by (cases r rule: rev_cases) auto
  have m: "r[31 := r ! 31 AND 0x1f] = xs @ [b AND 0x1f]"
    using xs list_update_length [of xs b "[]" "b AND 0x1f"] by (simp add: r nth_append)
  have "unat (b AND 0x1f) \<le> unat (0x1f :: byte)"
    by (rule word_and_le1 [THEN word_le_nat_alt [THEN iffD1]])
  then have b: "unat (b AND 0x1f) \<le> 31" by simp
  have "le_val xs < 256 ^ 31" using le_val_less [of xs] xs by simp
  moreover have "256 ^ 31 * unat (b AND 0x1f) \<le> 256 ^ 31 * 31"
    using b by simp
  ultimately have "le_val xs + 256 ^ 31 * unat (b AND 0x1f) < 256 ^ 31 + 256 ^ 31 * 31"
    by linarith
  then show ?thesis
    by (simp add: m le_val_append xs)
qed

lemma scalar_random_unfold:
  assumes "length (rnd k) = 32"
  shows "crypto_core_ed25519_scalar_random rnd k =
         (let r = (rnd k)[31 := rnd k ! 31 AND 0x1f]
          in if le_val r < group_order \<and> le_val r \<noteq> 0 then Some r
             else crypto_core_ed25519_scalar_random rnd (k + 1))"
  using assms
  by (subst crypto_core_ed25519_scalar_random.simps)
     (simp add: Let_def crypto_core_ed25519_SCALARBYTES_def sc25519_is_canonical_def
        sodium_is_zero_eq)

lemma scalar_random_first:
  assumes len: "\<forall>j. length (rnd j) = 32"
    and acc: "le_val ((rnd j)[31 := rnd j ! 31 AND 0x1f]) < group_order"
             "le_val ((rnd j)[31 := rnd j ! 31 AND 0x1f]) \<noteq> 0"
    and rej: "\<forall>i. k \<le> i \<and> i < j \<longrightarrow>
                \<not> (le_val ((rnd i)[31 := rnd i ! 31 AND 0x1f]) < group_order
                   \<and> le_val ((rnd i)[31 := rnd i ! 31 AND 0x1f]) \<noteq> 0)"
    and kj: "k \<le> j"
  shows "crypto_core_ed25519_scalar_random rnd k = Some ((rnd j)[31 := rnd j ! 31 AND 0x1f])"
  using rej kj
proof (induction "j - k" arbitrary: k)
  case 0
  then have "k = j" by simp
  then show ?case using acc len by (simp add: scalar_random_unfold)
next
  case (Suc d)
  then have lt: "k < j" by simp
  with Suc.prems(1) have r: "\<not> (le_val ((rnd k)[31 := rnd k ! 31 AND 0x1f]) < group_order
                   \<and> le_val ((rnd k)[31 := rnd k ! 31 AND 0x1f]) \<noteq> 0)"
    by simp
  have "crypto_core_ed25519_scalar_random rnd (k + 1)
        = Some ((rnd j)[31 := rnd j ! 31 AND 0x1f])"
  proof (rule Suc.hyps(1))
    show "d = j - (k + 1)" using Suc.hyps(2) by simp
    show "\<forall>i. k + 1 \<le> i \<and> i < j \<longrightarrow>
                \<not> (le_val ((rnd i)[31 := rnd i ! 31 AND 0x1f]) < group_order
                   \<and> le_val ((rnd i)[31 := rnd i ! 31 AND 0x1f]) \<noteq> 0)"
      using Suc.prems(1) by simp
    show "k + 1 \<le> j" using lt by simp
  qed
  moreover have "crypto_core_ed25519_scalar_random rnd k
        = crypto_core_ed25519_scalar_random rnd (k + 1)"
    using r len by (subst scalar_random_unfold) (auto simp: Let_def)
  ultimately show ?case by simp
qed

lemma scalar_random_Some:
  assumes res: "crypto_core_ed25519_scalar_random rnd k = Some r"
    and len: "\<forall>j. length (rnd j) = 32"
  shows "\<exists>j\<ge>k. r = (rnd j)[31 := rnd j ! 31 AND 0x1f]
           \<and> le_val r < group_order \<and> le_val r \<noteq> 0
           \<and> (\<forall>i. k \<le> i \<and> i < j \<longrightarrow>
                \<not> (le_val ((rnd i)[31 := rnd i ! 31 AND 0x1f]) < group_order
                   \<and> le_val ((rnd i)[31 := rnd i ! 31 AND 0x1f]) \<noteq> 0))"
proof -
  let ?acc = "\<lambda>(g :: nat \<Rightarrow> bytes) i. le_val ((g i)[31 := g i ! 31 AND 0x1f]) < group_order
                   \<and> le_val ((g i)[31 := g i ! 31 AND 0x1f]) \<noteq> 0"
  let ?Q = "\<lambda>(g :: nat \<Rightarrow> bytes) k r. (\<forall>j. length (g j) = 32) \<longrightarrow>
      (\<exists>j\<ge>k. r = (g j)[31 := g j ! 31 AND 0x1f] \<and> ?acc g j
           \<and> (\<forall>i. k \<le> i \<and> i < j \<longrightarrow> \<not> ?acc g i))"
  have "?Q rnd k r"
  proof (rule crypto_core_ed25519_scalar_random.raw_induct [where P = ?Q, OF _ res])
    fix f :: "(nat \<Rightarrow> bytes) \<Rightarrow> nat \<Rightarrow> bytes option" and g k y
    assume IH: "\<And>g k y. f g k = Some y \<Longrightarrow> ?Q g k y"
      and step: "(let r = g k;
                  r = r[crypto_core_ed25519_SCALARBYTES - 1 :=
                         r ! (crypto_core_ed25519_SCALARBYTES - 1) AND 0x1f]
              in if sc25519_is_canonical r = 0
                    \<or> sodium_is_zero r crypto_core_ed25519_SCALARBYTES \<noteq> 0
                 then f g (k + 1) else Some r) = Some y"
    show "?Q g k y"
    proof
      assume glen: "\<forall>j. length (g j) = 32"
      let ?c = "(g k)[31 := g k ! 31 AND 0x1f]"
      have step': "(if ?acc g k then Some ?c else f g (k + 1)) = Some y"
        using step glen
        by (simp add: Let_def crypto_core_ed25519_SCALARBYTES_def sc25519_is_canonical_def
            sodium_is_zero_eq split: if_splits)
      show "\<exists>j\<ge>k. y = (g j)[31 := g j ! 31 AND 0x1f] \<and> ?acc g j
           \<and> (\<forall>i. k \<le> i \<and> i < j \<longrightarrow> \<not> ?acc g i)"
      proof (cases "?acc g k")
        case True
        with step' have "y = ?c" by auto
        with True show ?thesis by (intro exI [of _ k]) simp
      next
        case False
        with step' have "f g (k + 1) = Some y" by (simp only: if_False)
        from IH [OF this] glen obtain j where j: "k + 1 \<le> j"
          "y = (g j)[31 := g j ! 31 AND 0x1f]" "?acc g j"
          "\<forall>i. k + 1 \<le> i \<and> i < j \<longrightarrow> \<not> ?acc g i"
          by blast
        have "\<not> ?acc g i" if "k \<le> i \<and> i < j" for i
        proof (cases "i = k")
          case True
          with False show ?thesis by simp
        next
          case neq: False
          with that have "k + 1 \<le> i \<and> i < j" by simp
          with j(4) show ?thesis by blast
        qed
        with j show ?thesis by (intro exI [of _ j]) simp
      qed
    qed
  qed
  with len show ?thesis by auto
qed


text \<open>
  C8: on draws of 32 bytes each, \<open>crypto_core_ed25519_scalar_random\<close> returns exactly
  when some draw, after the top three bits of its last byte are cleared, is canonical
  and nonzero.  What it returns is such a masked draw: 32 bytes, below \<open>2^253\<close>,
  below the group order and not zero.  When no draw is acceptable the loop never leaves.
\<close>

theorem scalar_random_result:
  assumes len: "\<forall>j. length (randombytes_buf j) = 32"
  shows "case crypto_core_ed25519_scalar_random randombytes_buf k of
           None \<Rightarrow>
             (\<forall>j\<ge>k. \<not> (le_val ((randombytes_buf j)[31 := randombytes_buf j ! 31 AND 0x1f])
                            < group_order
                        \<and> le_val ((randombytes_buf j)[31 := randombytes_buf j ! 31 AND 0x1f])
                            \<noteq> 0))
         | Some r \<Rightarrow>
             length r = 32 \<and> le_val r \<noteq> 0 \<and> le_val r < group_order \<and> le_val r < 2 ^ 253
             \<and> (\<exists>j\<ge>k. r = (randombytes_buf j)[31 := randombytes_buf j ! 31 AND 0x1f])"
proof (cases "crypto_core_ed25519_scalar_random randombytes_buf k")
  case None
  let ?acc = "\<lambda>i. le_val ((randombytes_buf i)[31 := randombytes_buf i ! 31 AND 0x1f])
                  < group_order
              \<and> le_val ((randombytes_buf i)[31 := randombytes_buf i ! 31 AND 0x1f]) \<noteq> 0"
  have "\<not> ?acc j" if "k \<le> j" for j
  proof
    assume a: "?acc j"
    define m where "m = (LEAST i. k \<le> i \<and> ?acc i)"
    have m: "k \<le> m \<and> ?acc m"
      unfolding m_def using that a by (intro LeastI [of "\<lambda>i. k \<le> i \<and> ?acc i" j]) simp
    have "\<not> ?acc i" if "k \<le> i \<and> i < m" for i
      using not_less_Least [of i "\<lambda>i. k \<le> i \<and> ?acc i"] that
      unfolding m_def by blast
    then have "crypto_core_ed25519_scalar_random randombytes_buf k
        = Some ((randombytes_buf m)[31 := randombytes_buf m ! 31 AND 0x1f])"
      using m len by (intro scalar_random_first) simp_all
    with None show False by simp
  qed
  with None show ?thesis by simp
next
  case (Some r)
  from scalar_random_Some [OF Some len] obtain j where j: "k \<le> j"
    "r = (randombytes_buf j)[31 := randombytes_buf j ! 31 AND 0x1f]"
    "le_val r < group_order" "le_val r \<noteq> 0"
    by blast
  have "length (randombytes_buf j) = 32" using len by simp
  then have "length r = 32" "le_val r < 2 ^ 253"
    using mask_top_bound [of "randombytes_buf j"] by (simp_all add: j(2))
  with j Some show ?thesis by auto
qed

lemma mask_top_append:
  fixes b :: byte
  shows "length xs = 31 \<Longrightarrow> (xs @ [b])[31 := (xs @ [b]) ! 31 AND 0x1f] = xs @ [b AND 0x1f]"
  using list_update_length [of xs b "[]" "b AND 0x1f"] by (simp add: nth_append)

theorem scalar_random_result_witness:
  "crypto_core_ed25519_scalar_random
     (\<lambda>j. if j = 0 then replicate 31 0xff @ [0xff] else (1 # replicate 30 0) @ [0]) 0
   = Some ((1 # replicate 30 0) @ [0])
   \<and> le_val ((1 # replicate 30 0) @ [0]) \<noteq> 0
   \<and> le_val ((1 # replicate 30 0) @ [0]) < group_order"
proof -
  let ?rnd = "\<lambda>j::nat. if j = 0 then replicate 31 (0xff::byte) @ [0xff]
                        else (1 # replicate 30 0) @ [0]"
  have len: "\<forall>j. length (?rnd j) = 32" by simp
  have c0: "(?rnd 0)[31 := ?rnd 0 ! 31 AND 0x1f] = replicate 31 0xff @ [0x1f]"
    using mask_top_append [of "replicate 31 0xff" "0xff"] by simp
  have v0: "le_val (replicate 31 (0xff::byte) @ [0x1f]) + 1 = 2 ^ 253"
    using le_val_replicate_ff [of 31] by (simp add: le_val_append)
  have rej: "\<not> le_val (replicate 31 (0xff::byte) @ [0x1f]) < group_order"
    using v0 by (simp add: group_order_def)
  have c1: "(?rnd 1)[31 := ?rnd 1 ! 31 AND 0x1f] = (1 # replicate 30 0) @ [0]"
    using mask_top_append [of "1 # replicate 30 0" 0] by simp
  have v1: "le_val (((1::byte) # replicate 30 0) @ [0]) = 1"
    by (simp add: le_val_append le_val_replicate_zero)
  have acc: "le_val (((1::byte) # replicate 30 0) @ [0]) < group_order"
    by (simp only: v1) (simp add: group_order_def)
  have "crypto_core_ed25519_scalar_random ?rnd 1 = Some ((1 # replicate 30 0) @ [0])"
    using acc v1 by (subst scalar_random_unfold) (simp_all only: c1 Let_def, simp_all)
  moreover have "crypto_core_ed25519_scalar_random ?rnd 0
      = crypto_core_ed25519_scalar_random ?rnd (0 + 1)"
    using rej by (subst scalar_random_unfold) (simp_all only: c0 Let_def, simp_all)
  ultimately have e: "crypto_core_ed25519_scalar_random ?rnd 0
      = Some ((1 # replicate 30 0) @ [0])"
    by simp
  show ?thesis
    using scalar_random_result [OF len, of 0] by (simp only: e option.case) simp
qed

section \<open>What \<open>_string_to_points\<close> computes\<close>

lemma le_bytes_numeral:
  "le_bytes (numeral k) v = word_of_nat (v mod 256) # le_bytes (pred_numeral k) (v div 256)"
  by (simp only: numeral_eq_Suc [of k] le_bytes.simps)

lemma toy_sha512_length: "length (toy_sha512 m) = 64"
  by (simp add: toy_sha512_def)

lemma expand_blocks_none:
  "expand_blocks H 0 u0 suite ctx 0 s = s"
  by (cases s) (simp add: expand_blocks.simps)

lemma expand_blocks_first:
  assumes "length u0 = 64" and "length u = 128" and "0 < n"
  shows "expand_blocks H n u0 suite ctx 0 (u, [a, b, c, d], hashed) =
         expand_blocks H n u0 suite ctx 64
           (take 64 (H (u0 @ [c + 1, d] @ suite @ ctx)) @ drop 64 u, [a, b, c + 1, d],
            hashed @ [u0 @ [c + 1, d] @ suite @ ctx])"
  using assms
  by (subst expand_blocks.simps)
     (simp add: Let_def HASH_BYTES_def memcpy_def crypto_hash_sha512_init_def
        crypto_hash_sha512_update_def crypto_hash_sha512_final_def)

lemma expand_blocks_second:
  assumes "length u0 = 64" and "length d1 = 64" and "length rest = 64" and "1 < n"
  shows "expand_blocks H n u0 suite ctx 64 (d1 @ rest, [a, b, c, d], hashed) =
         expand_blocks H n u0 suite ctx 128
           (d1 @ take 64 (H (map2 (XOR) u0 d1 @ [c + 1, d] @ suite @ ctx)), [a, b, c + 1, d],
            hashed @ [map2 (XOR) u0 d1 @ [c + 1, d] @ suite @ ctx])"
  using assms
  by (subst expand_blocks.simps)
     (simp add: Let_def HASH_BYTES_def memcpy_def xor_previous_def crypto_hash_sha512_init_def
        crypto_hash_sha512_update_def crypto_hash_sha512_final_def)

lemma expand_blocks_done:
  "n * 64 \<le> i \<Longrightarrow> expand_blocks H n u0 suite ctx i s = s"
  by (cases s) (simp add: expand_blocks.simps HASH_BYTES_def)

lemma map_seeds_done:
  "n \<le> i \<Longrightarrow> map_seeds fh n u i s = s"
  by (cases s) (simp add: map_seeds.simps)

lemma map_seeds_step:
  assumes "i < n" and "length u0 = 64"
  shows "map_seeds fh n u i (u0, px) =
         map_seeds fh n u (i + 1)
           (replicate 16 0 @ take 48 (drop (i * 48) u),
            memcpy px (i * 32) (fh (replicate 16 0 @ take 48 (drop (i * 48) u))) 32)"
  using assms
  by (subst map_seeds.simps)
     (simp add: Let_def HASH_BYTES_def HASH_L_def memcpy_def memset_def
        crypto_core_ed25519_BYTES_def)

lemma ctx_len_eq:
  "(case ctx of None \<Rightarrow> 0 | Some c \<Rightarrow> length c) = length (ctx_bytes ctx)"
  by (cases ctx) (simp_all add: ctx_bytes_def)

lemma string_to_points_reject:
  assumes "n > 2 \<or> length suite > 255 \<or> length (ctx_bytes ctx) > 255 - length suite"
  shows "string_to_points H fh px n suite ctx msg = (- 1, px, [])"
  using assms by (simp add: string_to_points_def Let_def ctx_len_eq)

lemma string_to_points_accept:
  assumes "n \<le> 2" and "length suite \<le> 255"
    and "length (ctx_bytes ctx) \<le> 255 - length suite"
  shows "string_to_points H fh px n suite ctx msg =
     (let m0 = u0_message n suite (ctx_bytes ctx) msg;
          u0 = take 64 (H m0);
          (u, t, hashed) = expand_blocks H n u0 suite (ctx_bytes ctx) 0
             (replicate 128 0,
              [0, word_of_nat (n * 48), 0, tag_byte suite (ctx_bytes ctx)], [m0]);
          (u0, px) = map_seeds fh n u 0 (u0, px)
      in (0, px, hashed))"
  using assms
  by (simp add: string_to_points_def Let_def HASH_BYTES_def HASH_L_def
        crypto_hash_sha512_init_def crypto_hash_sha512_update_def
        crypto_hash_sha512_final_def u0_message_def tag_byte_def ctx_len_eq)

lemma string_to_points_n0:
  assumes "length suite \<le> 255" and "length (ctx_bytes ctx) \<le> 255 - length suite"
  shows "string_to_points H fh px 0 suite ctx msg =
     (0, px, [u0_message 0 suite (ctx_bytes ctx) msg])"
  using assms
  by (subst string_to_points_accept)
     (simp_all add: Let_def expand_blocks_done map_seeds_done)

lemma string_to_points_n1:
  assumes H: "\<forall>x. length (H x) = 64"
    and "length suite \<le> 255" and "length (ctx_bytes ctx) \<le> 255 - length suite"
  shows "string_to_points H fh px 1 suite ctx msg =
     (let m0 = u0_message 1 suite (ctx_bytes ctx) msg;
          m1 = block_message (H m0) 1 suite (ctx_bytes ctx)
      in (0, memcpy px 0 (fh (replicate 16 0 @ take 48 (H m1))) 32, [m0, m1]))"
proof -
  let ?c = "ctx_bytes ctx"
  let ?m0 = "u0_message (Suc 0) suite ?c msg"
  let ?m1 = "block_message (H ?m0) (Suc 0) suite ?c"
  have e: "expand_blocks H (Suc 0) (H ?m0) suite ?c 0
             (replicate 128 0, [0, 48, 0, tag_byte suite ?c], [?m0])
           = (H ?m1 @ replicate 64 0, [0, 48, 1, tag_byte suite ?c], [?m0, ?m1])"
    using H
    by (subst expand_blocks_first) (simp_all add: expand_blocks_done block_message_def)
  have s: "map_seeds fh (Suc 0) (H ?m1 @ replicate 64 0) 0 (H ?m0, px)
           = (replicate 16 0 @ take 48 (H ?m1),
              memcpy px 0 (fh (replicate 16 0 @ take 48 (H ?m1))) 32)"
    using H by (subst map_seeds_step) (simp_all add: map_seeds_done)
  show ?thesis
    using assms(2,3) H
    by (subst string_to_points_accept) (simp_all add: Let_def e s)
qed

lemma string_to_points_n2:
  assumes H: "\<forall>x. length (H x) = 64"
    and "length suite \<le> 255" and "length (ctx_bytes ctx) \<le> 255 - length suite"
  shows "string_to_points H fh px 2 suite ctx msg =
     (let m0 = u0_message 2 suite (ctx_bytes ctx) msg;
          m1 = block_message (H m0) 1 suite (ctx_bytes ctx);
          m2 = block_message (map2 (XOR) (H m0) (H m1)) 2 suite (ctx_bytes ctx)
      in (0, memcpy (memcpy px 0 (fh (replicate 16 0 @ take 48 (H m1 @ H m2))) 32) 32
                (fh (replicate 16 0 @ take 48 (drop 48 (H m1 @ H m2)))) 32,
          [m0, m1, m2]))"
proof -
  let ?c = "ctx_bytes ctx"
  let ?m0 = "u0_message 2 suite ?c msg"
  let ?m1 = "block_message (H ?m0) (Suc 0) suite ?c"
  let ?m2 = "block_message (map2 (XOR) (H ?m0) (H ?m1)) 2 suite ?c"
  let ?u = "H ?m1 @ H ?m2"
  have e1: "expand_blocks H 2 (H ?m0) suite ?c 0
             (replicate 128 0, [0, 96, 0, tag_byte suite ?c], [?m0])
           = expand_blocks H 2 (H ?m0) suite ?c 64
             (H ?m1 @ replicate 64 0, [0, 96, 1, tag_byte suite ?c], [?m0, ?m1])"
    using H
    by (subst expand_blocks_first) (simp_all add: block_message_def)
  have e2: "expand_blocks H 2 (H ?m0) suite ?c 64
             (H ?m1 @ replicate 64 0, [0, 96, 1, tag_byte suite ?c], [?m0, ?m1])
           = (?u, [0, 96, 2, tag_byte suite ?c], [?m0, ?m1, ?m2])"
    using H
    by (subst expand_blocks_second) (simp_all add: expand_blocks_done block_message_def)
  have s1: "map_seeds fh 2 ?u 0 (H ?m0, px)
           = map_seeds fh 2 ?u 1
               (replicate 16 0 @ take 48 ?u, memcpy px 0 (fh (replicate 16 0 @ take 48 ?u)) 32)"
    using H by (subst map_seeds_step) simp_all
  have s2: "map_seeds fh 2 ?u 1
               (replicate 16 0 @ take 48 ?u, memcpy px 0 (fh (replicate 16 0 @ take 48 ?u)) 32)
           = (replicate 16 0 @ take 48 (drop 48 ?u),
              memcpy (memcpy px 0 (fh (replicate 16 0 @ take 48 ?u)) 32) 32
                (fh (replicate 16 0 @ take 48 (drop 48 ?u))) 32)"
    using H by (subst map_seeds_step) (simp_all add: map_seeds_done)
  have r: "string_to_points H fh px 2 suite ctx msg =
           (case expand_blocks H 2 (H ?m0) suite ?c 0
                   (replicate 128 0, [0, 96, 0, tag_byte suite ?c], [?m0]) of
              (u, t, hashed) \<Rightarrow>
                (case map_seeds fh 2 u 0 (H ?m0, px) of (u0, px) \<Rightarrow> (0, px, hashed)))"
    using assms(2,3) H
    by (subst string_to_points_accept) (simp_all add: Let_def)
  show ?thesis
    unfolding r e1 e2 Let_def using s1 s2 by (simp add: numeral_2_eq_2)
qed

section \<open>Claims on the hashed messages and the seeds\<close>

text \<open>
  C2, as amended: with a 64-byte digest and admissible parameters the messages hashed
  are, in order, the message of \<open>u0\<close> and one message per block.  The message of
  \<open>u0\<close> is 128 zero bytes, \<open>msg\<close>, the two bytes of \<open>n * 48\<close>, a zero byte, the
  length byte, \<open>suite\<close>, \<open>ctx\<close>.  The message of block \<open>i\<close> is \<open>u0\<close> (for the
  first block) or \<open>u0\<close> xored with the previous block digest, then the counter
  \<open>i + 1\<close>, the length byte, \<open>suite\<close>, \<open>ctx\<close>.  The length byte stands before
  the suite and the context, not after them.
\<close>

theorem string_to_points_hashed:
  assumes "\<forall>x. length (H x) = 64" and "n \<le> 2" and "length suite \<le> 255"
    and "length (ctx_bytes ctx) \<le> 255 - length suite"
  shows "snd (snd (string_to_points H from_hash px n suite ctx msg)) =
     (let c = ctx_bytes ctx;
          m0 = u0_message n suite c msg;
          m1 = block_message (H m0) 1 suite c;
          m2 = block_message (map2 (XOR) (H m0) (H m1)) 2 suite c
      in take (n + 1) [m0, m1, m2])"
proof -
  from assms(2) consider "n = 0" | "n = 1" | "n = 2" by linarith
  then show ?thesis
  proof cases
    case 1
    then show ?thesis using assms by (simp add: string_to_points_n0 Let_def)
  next
    case 2
    then show ?thesis
      using assms string_to_points_n1 [of H suite ctx from_hash px msg]
      by (simp add: Let_def)
  next
    case 3
    then show ?thesis using assms by (simp add: string_to_points_n2 Let_def)
  qed
qed

theorem string_to_points_hashed_witness:
  "snd (snd (string_to_points toy_sha512 (ge25519_from_hash toy_ge25519) (replicate 64 0) 2
               [0x41] (Some [0x42]) [0x6d])) =
     [u0_message 2 [0x41] [0x42] [0x6d],
      block_message (toy_sha512 (u0_message 2 [0x41] [0x42] [0x6d])) 1 [0x41] [0x42],
      block_message
        (map2 (XOR) (toy_sha512 (u0_message 2 [0x41] [0x42] [0x6d]))
           (toy_sha512 (block_message (toy_sha512 (u0_message 2 [0x41] [0x42] [0x6d])) 1
              [0x41] [0x42])))
        2 [0x41] [0x42]]"
  using string_to_points_hashed [of toy_sha512 2 "[0x41]" "Some [0x42]"
      "ge25519_from_hash toy_ge25519" "replicate 64 0" "[0x6d]"]
  by (simp add: toy_sha512_length ctx_bytes_def Let_def)

text \<open>
  C2, as stated, fails: with suite \<open>A\<close>, context \<open>B\<close> and message \<open>m\<close> the first
  message hashed ends with \<open>02 41 42\<close>, where the specification has \<open>41 42 02\<close>;
  the block message differs from the specification's in the same way.
\<close>

theorem hashed_tag_last_counterexample:
  "hd (snd (snd (string_to_points toy_sha512 (ge25519_from_hash toy_ge25519) (replicate 32 0) 1
                   [0x41] (Some [0x42]) [0x6d])))
     = replicate 128 0 @ [0x6d] @ [0, 48] @ [0] @ [2] @ [0x41] @ [0x42]
   \<and> spec_u0_message 1 [0x41] [0x42] [0x6d]
     = replicate 128 0 @ [0x6d] @ [0, 48] @ [0] @ [0x41] @ [0x42] @ [2]
   \<and> hd (snd (snd (string_to_points toy_sha512 (ge25519_from_hash toy_ge25519) (replicate 32 0)
                   1 [0x41] (Some [0x42]) [0x6d])))
     \<noteq> spec_u0_message 1 [0x41] [0x42] [0x6d]
   \<and> snd (snd (string_to_points toy_sha512 (ge25519_from_hash toy_ge25519) (replicate 32 0)
                   1 [0x41] (Some [0x42]) [0x6d])) ! 1
     \<noteq> spec_block_message (toy_sha512 (u0_message 1 [0x41] [0x42] [0x6d])) 1 [0x41] [0x42]"
  using string_to_points_n1 [of toy_sha512 "[0x41]" "Some [0x42]"
      "ge25519_from_hash toy_ge25519" "replicate 32 0" "[0x6d]"]
  by (simp add: toy_sha512_length ctx_bytes_def Let_def
      u0_message_def spec_u0_message_def block_message_def spec_block_message_def
      tag_byte_def)


text \<open>
  C3, as amended: the block digests are concatenated and seed \<open>i\<close> is the 48 bytes of
  the concatenation from offset \<open>48 * i\<close>: the first 48 bytes of the first block for
  \<open>i = 0\<close>, the last 16 bytes of the first block and the first 32 of the second for
  \<open>i = 1\<close>.  The seed goes to \<open>ge25519_from_hash\<close> behind 16 zero bytes, and the
  answer is written at offset \<open>32 * i\<close> of the output.
\<close>

theorem string_to_points_seeds:
  assumes "\<forall>x. length (H x) = 64" and "n \<le> 2" and "length suite \<le> 255"
    and "length (ctx_bytes ctx) \<le> 255 - length suite"
  shows "fst (snd (string_to_points H from_hash px n suite ctx msg)) =
     (let c = ctx_bytes ctx;
          m0 = u0_message n suite c msg;
          m1 = block_message (H m0) 1 suite c;
          m2 = block_message (map2 (XOR) (H m0) (H m1)) 2 suite c;
          u = concat (map H (take n [m1, m2]));
          point = (\<lambda>i. from_hash (replicate 16 0 @ take 48 (drop (i * 48) u)))
      in if n = 0 then px
         else if n = 1 then memcpy px 0 (point 0) 32
         else memcpy (memcpy px 0 (point 0) 32) 32 (point 1) 32)"
proof -
  from assms(2) consider "n = 0" | "n = 1" | "n = 2" by linarith
  then show ?thesis
  proof cases
    case 1
    then show ?thesis using assms by (simp add: string_to_points_n0 Let_def)
  next
    case 2
    then show ?thesis
      using assms string_to_points_n1 [of H suite ctx from_hash px msg]
      by (simp add: Let_def)
  next
    case 3
    then show ?thesis
      using assms string_to_points_n2 [of H suite ctx from_hash px msg]
      by (simp add: Let_def)
  qed
qed

lemma toy_sha512_68:
  "toy_sha512 (block_message (toy_sha512 m) k [a] [b]) = map word_of_nat [68 ..< 132]"
  by (simp add: toy_sha512_def block_message_def)

text \<open>
  C3, as stated, fails: the point written for one block is not the one obtained from
  the last 48 bytes of the block.
\<close>

theorem seed_last_48_counterexample:
  "fst (snd (string_to_points toy_sha512 (ge25519_from_hash toy_ge25519) (replicate 32 0) 1
               [0x41] (Some [0x42]) [0x6d]))
   \<noteq> memcpy (replicate 32 0) 0
       (ge25519_from_hash toy_ge25519
          (replicate 16 0 @ spec_seed (toy_sha512
             (block_message (toy_sha512 (u0_message 1 [0x41] [0x42] [0x6d])) 1 [0x41] [0x42]))))
       32"
  using string_to_points_n1 [of toy_sha512 "[0x41]" "Some [0x42]"
      "ge25519_from_hash toy_ge25519" "replicate 32 0" "[0x6d]"]
  by (simp add: toy_sha512_length ctx_bytes_def Let_def toy_sha512_68 toy_ge25519_def
      spec_seed_def memcpy_def HASH_BYTES_def HASH_L_def)

theorem string_to_points_seeds_witness:
  "fst (snd (string_to_points toy_sha512 (ge25519_from_hash toy_ge25519) (replicate 64 0) 2
               [0x41] (Some [0x42]) [0x6d]))
   = 0 # map word_of_nat [68 ..< 99] @ 0 # map word_of_nat [116 ..< 132]
       @ map word_of_nat [68 ..< 83]"
  using string_to_points_seeds [of toy_sha512 2 "[0x41]" "Some [0x42]"
      "ge25519_from_hash toy_ge25519" "replicate 64 0" "[0x6d]"]
  by (simp add: toy_sha512_length ctx_bytes_def Let_def toy_sha512_68 toy_ge25519_def
      memcpy_def toy_sha512_def block_message_def)

section \<open>Claims on the parameter check\<close>

lemma length_suite_NU: "length suite_NU = 33"
  by (simp add: suite_NU_def)

lemma length_suite_RO: "length suite_RO = 33"
  by (simp add: suite_RO_def)

lemma string_to_points_status:
  "fst (string_to_points H fh px n suite ctx msg) =
     (if n > 2 \<or> length suite > 255 \<or> length (ctx_bytes ctx) > 255 - length suite
      then - 1 else 0)"
  by (simp add: string_to_points_def Let_def ctx_len_eq split_beta)

lemma memcpy_twice:
  assumes "length a = 32" and "length b = 32"
  shows "memcpy (memcpy (replicate 64 0) 0 a 32) 32 b 32 = a @ b"
  using assms by (simp add: memcpy_def)

lemma from_string_ro_accept:
  fixes G :: "('p3, 'p1p1, 'cached) ge25519"
  assumes H: "\<forall>x. length (H x) = 64"
    and G: "\<forall>h. length (ge25519_from_hash G h) = 32
              \<and> fst (ge25519_frombytes G (ge25519_from_hash G h)) = 0
              \<and> ge25519_is_on_curve G (snd (ge25519_frombytes G (ge25519_from_hash G h))) \<noteq> 0"
    and ok: "length (ctx_bytes ctx) \<le> 222"
  shows "fst (crypto_core_ed25519_from_string_ro H G p ctx msg) = 0"
proof -
  have l: "length suite_RO \<le> 255" "length (ctx_bytes ctx) \<le> 255 - length suite_RO"
    using ok by (simp_all add: length_suite_RO)
  obtain a b hashed where r: "string_to_points H (ge25519_from_hash G) (replicate 64 0) 2
      suite_RO ctx msg = (0, ge25519_from_hash G a @ ge25519_from_hash G b, hashed)"
    using string_to_points_n2 [OF H l, of "ge25519_from_hash G" "replicate 64 0" msg] G
    by (simp add: Let_def memcpy_twice)
  have t: "take 32 (ge25519_from_hash G a @ ge25519_from_hash G b) = ge25519_from_hash G a"
    "take 32 (drop 32 (ge25519_from_hash G a @ ge25519_from_hash G b)) = ge25519_from_hash G b"
    using G by simp_all
  show ?thesis
    using G
    by (simp add: crypto_core_ed25519_from_string_ro_def crypto_core_ed25519_BYTES_def r t
        Let_def crypto_core_ed25519_add_def split_beta)
qed

text \<open>
  C6: \<open>_string_to_points\<close> answers -1 exactly when \<open>n > 2\<close>, or the suite is longer
  than 255 bytes, or the context is longer than 255 minus the length of the suite; it
  then has hashed nothing and has left the output as it was.  A suite of 255 bytes with
  a non-empty context is rejected, a suite and context of 255 bytes together pass.
  \<open>crypto_core_ed25519_from_string\<close> fails on exactly these contexts, and so does
  \<open>crypto_core_ed25519_from_string_ro\<close> when the digest has 64 bytes and every point
  that \<open>ge25519_from_hash\<close> answers has 32 bytes, decodes and is on the curve.
\<close>

theorem string_to_points_rejects:
  fixes G :: "('p3, 'p1p1, 'cached) ge25519"
  shows "fst (string_to_points H from_hash px n suite ctx msg) =
           (if n > 2 \<or> length suite > 255 \<or> length (ctx_bytes ctx) > 255 - length suite
            then - 1 else 0)
       \<and> (n > 2 \<or> length suite > 255 \<or> length (ctx_bytes ctx) > 255 - length suite \<longrightarrow>
            string_to_points H from_hash px n suite ctx msg = (- 1, px, []))
       \<and> (length suite = 255 \<and> ctx_bytes ctx \<noteq> [] \<longrightarrow>
            fst (string_to_points H from_hash px n suite ctx msg) = - 1)
       \<and> (n \<le> 2 \<and> length suite + length (ctx_bytes ctx) = 255 \<longrightarrow>
            fst (string_to_points H from_hash px n suite ctx msg) = 0)
       \<and> fst (crypto_core_ed25519_from_string H G p ctx msg) =
           (if length (ctx_bytes ctx) > 255 - length suite_NU then - 1 else 0)
       \<and> (length (ctx_bytes ctx) > 255 - length suite_NU \<longrightarrow>
            crypto_core_ed25519_from_string H G p ctx msg = (- 1, p, []))
       \<and> (length (ctx_bytes ctx) > 255 - length suite_RO \<longrightarrow>
            crypto_core_ed25519_from_string_ro H G p ctx msg = (- 1, p, []))
       \<and> ((\<forall>x. length (H x) = 64)
            \<and> (\<forall>h. length (ge25519_from_hash G h) = 32
                  \<and> fst (ge25519_frombytes G (ge25519_from_hash G h)) = 0
                  \<and> ge25519_is_on_curve G (snd (ge25519_frombytes G (ge25519_from_hash G h)))
                       \<noteq> 0) \<longrightarrow>
            fst (crypto_core_ed25519_from_string_ro H G p ctx msg) =
              (if length (ctx_bytes ctx) > 255 - length suite_RO then - 1 else 0))"
proof -
  let ?bad = "n > 2 \<or> length suite > 255 \<or> length (ctx_bytes ctx) > 255 - length suite"
  let ?G = "(\<forall>x. length (H x) = 64)
            \<and> (\<forall>h. length (ge25519_from_hash G h) = 32
                  \<and> fst (ge25519_frombytes G (ge25519_from_hash G h)) = 0
                  \<and> ge25519_is_on_curve G (snd (ge25519_frombytes G (ge25519_from_hash G h)))
                       \<noteq> 0)"
  have c1: "fst (string_to_points H from_hash px n suite ctx msg) = (if ?bad then - 1 else 0)"
    by (rule string_to_points_status)
  have c2: "?bad \<longrightarrow> string_to_points H from_hash px n suite ctx msg = (- 1, px, [])"
    by (simp add: string_to_points_reject)
  have c4: "length suite = 255 \<and> ctx_bytes ctx \<noteq> [] \<longrightarrow>
            fst (string_to_points H from_hash px n suite ctx msg) = - 1"
    by (simp add: string_to_points_status)
  have c5: "n \<le> 2 \<and> length suite + length (ctx_bytes ctx) = 255 \<longrightarrow>
            fst (string_to_points H from_hash px n suite ctx msg) = 0"
    by (auto simp add: string_to_points_status)
  have c6: "fst (crypto_core_ed25519_from_string H G p ctx msg) =
            (if length (ctx_bytes ctx) > 255 - length suite_NU then - 1 else 0)"
    by (simp add: crypto_core_ed25519_from_string_def string_to_points_status length_suite_NU)
  have c7: "length (ctx_bytes ctx) > 255 - length suite_NU \<longrightarrow>
            crypto_core_ed25519_from_string H G p ctx msg = (- 1, p, [])"
    by (simp add: crypto_core_ed25519_from_string_def string_to_points_reject)
  have c8: "length (ctx_bytes ctx) > 255 - length suite_RO \<longrightarrow>
            crypto_core_ed25519_from_string_ro H G p ctx msg = (- 1, p, [])"
    by (simp add: crypto_core_ed25519_from_string_ro_def Let_def string_to_points_reject)
  have c9: "?G \<longrightarrow> fst (crypto_core_ed25519_from_string_ro H G p ctx msg) =
              (if length (ctx_bytes ctx) > 255 - length suite_RO then - 1 else 0)"
  proof
    assume g: ?G
    show "fst (crypto_core_ed25519_from_string_ro H G p ctx msg) =
              (if length (ctx_bytes ctx) > 255 - length suite_RO then - 1 else 0)"
    proof (cases "length (ctx_bytes ctx) > 255 - length suite_RO")
      case True
      with c8 show ?thesis by simp
    next
      case False
      then have "length (ctx_bytes ctx) \<le> 222" by (simp add: length_suite_RO)
      with g have "fst (crypto_core_ed25519_from_string_ro H G p ctx msg) = 0"
        by (intro from_string_ro_accept) simp_all
      with False show ?thesis by simp
    qed
  qed
  from c1 c2 c4 c5 c6 c7 c8 c9 show ?thesis
    apply (intro conjI)
    apply assumption+
    done
qed

lemma toy_from_hash_ok:
  "\<forall>h. length (ge25519_from_hash toy_ge25519 h) = 32
     \<and> fst (ge25519_frombytes toy_ge25519 (ge25519_from_hash toy_ge25519 h)) = 0
     \<and> ge25519_is_on_curve toy_ge25519
          (snd (ge25519_frombytes toy_ge25519 (ge25519_from_hash toy_ge25519 h))) \<noteq> 0"
proof
  fix h :: bytes
  have l: "length (take 31 (drop 16 h @ replicate 31 0)) = 31" by simp
  have v: "le_val (0 # take 31 (drop 16 h @ replicate 31 0)) mod 4 = 0" by simp
  show "length (ge25519_from_hash toy_ge25519 h) = 32
     \<and> fst (ge25519_frombytes toy_ge25519 (ge25519_from_hash toy_ge25519 h)) = 0
     \<and> ge25519_is_on_curve toy_ge25519
          (snd (ge25519_frombytes toy_ge25519 (ge25519_from_hash toy_ge25519 h))) \<noteq> 0"
    using l v by (simp add: toy_ge25519_def del: length_take take_append le_val.simps)
qed

theorem string_to_points_rejects_witness:
  "string_to_points toy_sha512 (ge25519_from_hash toy_ge25519) (replicate 32 0) 1
     (replicate 255 0x41) (Some [0x42]) [] = (- 1, replicate 32 0, [])
   \<and> fst (string_to_points toy_sha512 (ge25519_from_hash toy_ge25519) (replicate 32 0) 1
          (replicate 254 0x41) (Some [0x42]) []) = 0
   \<and> crypto_core_ed25519_from_string_ro toy_sha512 toy_ge25519 (replicate 32 0)
          (Some (replicate 223 0x61)) [] = (- 1, replicate 32 0, [])
   \<and> fst (crypto_core_ed25519_from_string_ro toy_sha512 toy_ge25519 (replicate 32 0)
          (Some (replicate 222 0x61)) []) = 0"
  using string_to_points_rejects [where H = toy_sha512 and G = toy_ge25519
      and from_hash = "ge25519_from_hash toy_ge25519" and px = "replicate 32 0" and n = 1
      and suite = "replicate 255 0x41" and ctx = "Some [0x42]" and msg = "[]"
      and p = "replicate 32 0"]
    string_to_points_rejects [where H = toy_sha512 and G = toy_ge25519
      and from_hash = "ge25519_from_hash toy_ge25519" and px = "replicate 32 0" and n = 1
      and suite = "replicate 254 0x41" and ctx = "Some [0x42]" and msg = "[]"
      and p = "replicate 32 0"]
    string_to_points_rejects [where H = toy_sha512 and G = toy_ge25519
      and from_hash = "ge25519_from_hash toy_ge25519" and px = "replicate 32 0" and n = 1
      and suite = "replicate 254 0x41"
      and p = "replicate 32 0" and ctx = "Some (replicate 223 0x61)" and msg = "[]"]
    string_to_points_rejects [where H = toy_sha512 and G = toy_ge25519
      and from_hash = "ge25519_from_hash toy_ge25519" and px = "replicate 32 0" and n = 1
      and suite = "replicate 254 0x41"
      and p = "replicate 32 0" and ctx = "Some (replicate 222 0x61)" and msg = "[]"]
    toy_from_hash_ok
  by (simp add: ctx_bytes_def length_suite_RO length_suite_NU toy_sha512_length)

section \<open>Claims on validation and the group operations\<close>

text \<open>
  C4: \<open>crypto_core_ed25519_is_valid_point\<close> answers 1 exactly when the encoding is
  canonical, is not of small order, decodes, and the decoded element is on the curve
  and in the main subgroup; otherwise it answers 0.  The primitives are called in this
  order and none is called after the first test that fails.  Whatever the primitive
  reports as small-order, the encoding of the identity among them, is answered 0.
\<close>

theorem is_valid_point_checks:
  fixes G :: "('p3, 'p1p1, 'cached) ge25519"
  shows "(fst (crypto_core_ed25519_is_valid_point G p) = 1 \<longleftrightarrow>
            ge25519_is_canonical G p \<noteq> 0
          \<and> ge25519_has_small_order G p = 0
          \<and> fst (ge25519_frombytes G p) = 0
          \<and> ge25519_is_on_curve G (snd (ge25519_frombytes G p)) \<noteq> 0
          \<and> ge25519_is_on_main_subgroup G (snd (ge25519_frombytes G p)) \<noteq> 0)
       \<and> (fst (crypto_core_ed25519_is_valid_point G p) \<noteq> 1 \<longrightarrow>
            fst (crypto_core_ed25519_is_valid_point G p) = 0)
       \<and> snd (crypto_core_ed25519_is_valid_point G p) =
           (if ge25519_is_canonical G p = 0 then [Is_canonical]
            else if ge25519_has_small_order G p \<noteq> 0 then [Is_canonical, Has_small_order]
            else if fst (ge25519_frombytes G p) \<noteq> 0
              then [Is_canonical, Has_small_order, Frombytes]
            else if ge25519_is_on_curve G (snd (ge25519_frombytes G p)) = 0
              then [Is_canonical, Has_small_order, Frombytes, Is_on_curve]
            else [Is_canonical, Has_small_order, Frombytes, Is_on_curve, Is_on_main_subgroup])
       \<and> (ge25519_has_small_order G p \<noteq> 0 \<longrightarrow>
            fst (crypto_core_ed25519_is_valid_point G p) = 0)"
  by (simp add: crypto_core_ed25519_is_valid_point_def Let_def split_beta)

theorem is_valid_point_checks_witness:
  "crypto_core_ed25519_is_valid_point toy_ge25519 (16 # replicate 31 0)
     = (1, [Is_canonical, Has_small_order, Frombytes, Is_on_curve, Is_on_main_subgroup])
   \<and> crypto_core_ed25519_is_valid_point toy_ge25519 (1 # replicate 31 0)
     = (0, [Is_canonical, Has_small_order])"
  using is_valid_point_checks [of toy_ge25519 "16 # replicate 31 0"]
    is_valid_point_checks [of toy_ge25519 "1 # replicate 31 0"]
  by (simp add: toy_ge25519_def le_val_replicate_zero prod_eq_iff)

text \<open>
  C5: \<open>crypto_core_ed25519_add\<close> and \<open>crypto_core_ed25519_sub\<close> answer -1 exactly
  when one operand does not decode or decodes to an element off the curve, and then
  \<open>r\<close> is as it was.  Otherwise they answer 0 and \<open>r\<close> holds the encoding of the
  sum, respectively the difference, of the decoded operands.  The canonicity,
  small-order and main-subgroup tests play no part: replacing them changes nothing.
\<close>

theorem add_sub_decode_failure:
  fixes G :: "('p3, 'p1p1, 'cached) ge25519"
  defines "bad \<equiv> \<lambda>p q. fst (ge25519_frombytes G p) \<noteq> 0
                    \<or> ge25519_is_on_curve G (snd (ge25519_frombytes G p)) = 0
                    \<or> fst (ge25519_frombytes G q) \<noteq> 0
                    \<or> ge25519_is_on_curve G (snd (ge25519_frombytes G q)) = 0"
  shows "(fst (crypto_core_ed25519_add G r p q) = - 1 \<longleftrightarrow> bad p q)
       \<and> (fst (crypto_core_ed25519_sub G r p q) = - 1 \<longleftrightarrow> bad p q)
       \<and> (bad p q \<longrightarrow> crypto_core_ed25519_add G r p q = (- 1, r)
                      \<and> crypto_core_ed25519_sub G r p q = (- 1, r))
       \<and> (\<not> bad p q \<longrightarrow>
            crypto_core_ed25519_add G r p q =
              (0, ge25519_p3_tobytes G (ge25519_p1p1_to_p3 G
                    (ge25519_add G (snd (ge25519_frombytes G p))
                       (ge25519_p3_to_cached G (snd (ge25519_frombytes G q))))))
          \<and> crypto_core_ed25519_sub G r p q =
              (0, ge25519_p3_tobytes G (ge25519_p1p1_to_p3 G
                    (ge25519_sub G (snd (ge25519_frombytes G p))
                       (ge25519_p3_to_cached G (snd (ge25519_frombytes G q)))))))
       \<and> crypto_core_ed25519_add
            (G\<lparr>ge25519_is_canonical := c, ge25519_has_small_order := h,
               ge25519_is_on_main_subgroup := m\<rparr>) r p q
          = crypto_core_ed25519_add G r p q
       \<and> crypto_core_ed25519_sub
            (G\<lparr>ge25519_is_canonical := c, ge25519_has_small_order := h,
               ge25519_is_on_main_subgroup := m\<rparr>) r p q
          = crypto_core_ed25519_sub G r p q"
  unfolding bad_def
  by (simp add: crypto_core_ed25519_add_def crypto_core_ed25519_sub_def Let_def split_beta)

theorem add_sub_decode_failure_witness:
  "crypto_core_ed25519_add toy_ge25519 (replicate 32 0xaa) (3 # replicate 31 0) (8 # replicate 31 0)
     = (- 1, replicate 32 0xaa)
   \<and> crypto_core_ed25519_sub toy_ge25519 (replicate 32 0xaa) (16 # replicate 31 0)
       (2 # replicate 31 0) = (- 1, replicate 32 0xaa)
   \<and> crypto_core_ed25519_add toy_ge25519 (replicate 32 0xaa) (16 # replicate 31 0)
       (8 # replicate 31 0) = (0, le_bytes 32 24)
   \<and> crypto_core_ed25519_sub toy_ge25519 (replicate 32 0xaa) (16 # replicate 31 0)
       (8 # replicate 31 0) = (0, le_bytes 32 8)"
  using add_sub_decode_failure [of toy_ge25519 "replicate 32 0xaa" "3 # replicate 31 0"
      "8 # replicate 31 0"]
    add_sub_decode_failure [of toy_ge25519 "replicate 32 0xaa" "16 # replicate 31 0"
      "2 # replicate 31 0"]
    add_sub_decode_failure [of toy_ge25519 "replicate 32 0xaa" "16 # replicate 31 0"
      "8 # replicate 31 0"]
  by (simp add: toy_ge25519_def le_val_replicate_zero)

end
